theory Spec2Isabelle
  imports Main
begin

section \<open>Python values and exceptions\<close>

text \<open>
  The notebook \<^verbatim>\<open>create-training-data.ipynb\<close> builds chat exchanges from the rows of a
  CSV file, writes them as line-delimited JSON, reads the file back, and computes warnings,
  token counts and a cost estimate over the loaded dataset. An exception that leaves a cell
  is modelled as the left summand of a result.
\<close>

datatype py_error = KeyError | TypeError | ZeroDivisionError | JSONDecodeError

text \<open>
  A value as \<^verbatim>\<open>json.loads\<close> returns it. A \<^verbatim>\<open>dict\<close> keeps its insertion order, so it
  is an association list; a number with a fraction or an exponent (a Python \<^verbatim>\<open>float\<close>) is
  kept as its literal.
\<close>

datatype json =
    JNull
  | JBool bool
  | JInt int
  | JFloat string
  | JStr string
  | JList "json list"
  | JObj "(string \<times> json) list"

text \<open>Sequencing two steps, the second skipped when the first raises.\<close>

definition bind :: "py_error + 'a \<Rightarrow> ('a \<Rightarrow> py_error + 'b) \<Rightarrow> py_error + 'b" where
  "bind r f = (case r of Inl e \<Rightarrow> Inl e | Inr v \<Rightarrow> f v)"

text \<open>
  \<^verbatim>\<open>obj[key]\<close> with a string key: a \<^verbatim>\<open>dict\<close> without the key raises \<^verbatim>\<open>KeyError\<close>;
  a list or a string takes integer indices only, and \<^verbatim>\<open>None\<close>, booleans and numbers are
  not subscriptable: \<^verbatim>\<open>TypeError\<close>.
\<close>

definition py_getitem :: "json \<Rightarrow> string \<Rightarrow> py_error + json" where
  "py_getitem obj key =
     (case obj of
        JObj kvs \<Rightarrow> (case map_of kvs key of None \<Rightarrow> Inl KeyError | Some v \<Rightarrow> Inr v)
      | _ \<Rightarrow> Inl TypeError)"

text \<open>
  What a \<^verbatim>\<open>for\<close> over a value visits: the items of a list, the keys of a \<^verbatim>\<open>dict\<close>, the
  characters of a string; anything else is not iterable.
\<close>

definition py_iter :: "json \<Rightarrow> py_error + json list" where
  "py_iter v =
     (case v of
        JList xs \<Rightarrow> Inr xs
      | JObj kvs \<Rightarrow> Inr (map (\<lambda>kv. JStr (fst kv)) kvs)
      | JStr s \<Rightarrow> Inr (map (\<lambda>c. JStr [c]) s)
      | _ \<Rightarrow> Inl TypeError)"

definition py_len :: "json \<Rightarrow> py_error + int" where
  "py_len v =
     (case v of
        JList xs \<Rightarrow> Inr (int (length xs))
      | JObj kvs \<Rightarrow> Inr (int (length kvs))
      | JStr s \<Rightarrow> Inr (int (length s))
      | _ \<Rightarrow> Inl TypeError)"

text \<open>Python's \<^verbatim>\<open>sum\<close> over a generator: a left fold that starts at 0.\<close>

definition py_sum :: "int list \<Rightarrow> int" where
  "py_sum xs = foldl (+) 0 xs"

text \<open>Python's \<^verbatim>\<open>a // b\<close> on integers: floor division, \<^verbatim>\<open>ZeroDivisionError\<close> when \<open>b = 0\<close>.\<close>

definition floordiv :: "int \<Rightarrow> int \<Rightarrow> py_error + int" where
  "floordiv a b = (if b = 0 then Inl ZeroDivisionError else Inr (a div b))"

definition LF :: char where
  "LF = CHR 0x0A"

definition CR :: char where
  "CR = CHR 0x0D"

definition DQ :: char where
  "DQ = CHR 0x22"

section \<open>Example exchanges (cell 2)\<close>

text \<open>
  A row of the data frame maps column labels to cells; \<^verbatim>\<open>row['Review']\<close> raises
  \<^verbatim>\<open>KeyError\<close> for a label the row does not have. An f-string formats a cell with the
  cell's own \<^verbatim>\<open>__format__\<close>, which is Python's and pandas' code: the parameter \<open>fmt\<close>.
\<close>

type_synonym 'c row = "string \<rightharpoonup> 'c"

definition row_getitem :: "'c row \<Rightarrow> string \<Rightarrow> py_error + 'c" where
  "row_getitem row label = (case row label of None \<Rightarrow> Inl KeyError | Some c \<Rightarrow> Inr c)"

definition system_message :: string where
  "system_message =
     ''You are a restaurant review analyzer. Analyze the sentiment in the review provided. Output the rating value and the sentiment as JSON .''"

text \<open>\<^verbatim>\<open>return f"""Review: {row['Review']}"""\<close>\<close>

definition create_user_message :: "('c \<Rightarrow> string) \<Rightarrow> 'c row \<Rightarrow> py_error + string" where
  "create_user_message fmt row =
     bind (row_getitem row ''Review'') (\<lambda>review. Inr (''Review: '' @ fmt review))"

text \<open>
  \<^verbatim>\<open>return f"{{\"rating\": {row['Rating']}, \"Sentiment\": \"{row['Sentiment']}\"}}\n"\<close>
\<close>

definition create_assistant_message :: "('c \<Rightarrow> string) \<Rightarrow> 'c row \<Rightarrow> py_error + string" where
  "create_assistant_message fmt row =
     bind (row_getitem row ''Rating'') (\<lambda>rating.
     bind (row_getitem row ''Sentiment'') (\<lambda>sentiment.
       Inr (''{'' @ [DQ] @ ''rating'' @ [DQ] @ '': '' @ fmt rating @ '', ''
            @ [DQ] @ ''Sentiment'' @ [DQ] @ '': '' @ [DQ] @ fmt sentiment @ [DQ]
            @ ''}'' @ [LF])))"

text \<open>
  \<^verbatim>\<open>
  def create_full_exchange(row):
      messages = []
      messages.append({"role": "system", "content": system_message})
      user_message = create_user_message(row)
      messages.append({"role": "user", "content": user_message})
      assistant_message = create_assistant_message(row)
      messages.append({"role": "assistant", "content": assistant_message})
      return {"messages": messages}
  \<close>
\<close>

definition create_full_exchange :: "('c \<Rightarrow> string) \<Rightarrow> 'c row \<Rightarrow> py_error + json" where
  "create_full_exchange fmt row =
     (let messages = [];
          messages = messages @ [JObj [(''role'', JStr ''system''), (''content'', JStr system_message)]]
      in bind (create_user_message fmt row) (\<lambda>user_message.
         let messages = messages @ [JObj [(''role'', JStr ''user''), (''content'', JStr user_message)]]
         in bind (create_assistant_message fmt row) (\<lambda>assistant_message.
            let messages = messages
                  @ [JObj [(''role'', JStr ''assistant''), (''content'', JStr assistant_message)]]
            in Inr (JObj [(''messages'', JList messages)]))))"

section \<open>Line-delimited JSON files (cells 3 and 4)\<close>

text \<open>
  \<^verbatim>\<open>
  def write_jsonl(data_list: list, filename: str) -> None:
      with open(filename, "w") as out:
          for ddict in data_list:
              jout = json.dumps(ddict) + "\n"
              out.write(jout)
  \<close>
  \<^verbatim>\<open>json.dumps\<close> is the standard library's: the parameter \<open>dumps\<close>. A file opened in text
  mode for writing starts empty and stores every \<^verbatim>\<open>"\n"\<close> written as the platform's line
  separator \<open>linesep\<close>. The model returns the stored text of the file.
\<close>

definition text_write :: "string \<Rightarrow> string \<Rightarrow> string" where
  "text_write linesep s = concat (map (\<lambda>c. if c = LF then linesep else [c]) s)"

definition write_jsonl :: "string \<Rightarrow> ('a \<Rightarrow> string) \<Rightarrow> 'a list \<Rightarrow> string" where
  "write_jsonl linesep dumps data_list =
     foldl (\<lambda>out ddict. let jout = dumps ddict @ [LF] in out @ text_write linesep jout)
       [] data_list"

text \<open>
  Iterating over a file opened in text mode for reading yields its lines, each with its line
  end. The default universal-newlines mode ends a line at \<^verbatim>\<open>"\n"\<close>, at \<^verbatim>\<open>"\r\n"\<close> and at a
  lone \<^verbatim>\<open>"\r"\<close>, and hands each of them over as \<^verbatim>\<open>"\n"\<close>; a last line without a line end is
  yielded as it is. \<open>cur\<close> holds the characters of the line being read.
\<close>

fun file_lines :: "string \<Rightarrow> string \<Rightarrow> string list" where
  "file_lines cur [] = (if cur = [] then [] else [cur])"
| "file_lines cur [c] =
     (if c = LF \<or> c = CR then [cur @ [LF]] else [cur @ [c]])"
| "file_lines cur (c # d # cs) =
     (if c = CR \<and> d = LF then (cur @ [LF]) # file_lines [] cs
      else if c = LF \<or> c = CR then (cur @ [LF]) # file_lines [] (d # cs)
      else file_lines (cur @ [c]) (d # cs))"

text \<open>
  \<^verbatim>\<open>dataset = [json.loads(line) for line in f]\<close>: the first line \<^verbatim>\<open>json.loads\<close> (the
  parameter \<open>loads\<close>) rejects ends the comprehension with its exception.
\<close>

fun loads_lines :: "(string \<Rightarrow> py_error + 'a) \<Rightarrow> string list \<Rightarrow> py_error + 'a list" where
  "loads_lines loads [] = Inr []"
| "loads_lines loads (line # rest) =
     bind (loads line) (\<lambda>v. bind (loads_lines loads rest) (\<lambda>vs. Inr (v # vs)))"

definition load_dataset :: "(string \<Rightarrow> py_error + 'a) \<Rightarrow> string \<Rightarrow> py_error + 'a list" where
  "load_dataset loads f = loads_lines loads (file_lines [] f)"

section \<open>Warnings and token counts (cell 5)\<close>

text \<open>
  The variables of the notebook that the cells from here on read or assign. \<open>errors\<close> is
  what \<^verbatim>\<open>check_format_errors\<close> returned in cell 4.
\<close>

record 'e notebook =
  dataset :: "json list"
  errors :: 'e
  n_missing_system :: int
  n_missing_user :: int
  n_messages :: "int list"
  convo_lens :: "int list"
  assistant_message_lens :: "int list"
  n_too_long :: int

text \<open>
  \<^verbatim>\<open>any(message["role"] == r for message in messages)\<close>: \<^verbatim>\<open>any\<close> stops at the first
  message whose role is \<open>r\<close>, so a later message is not looked at; a value that is not the
  string \<open>r\<close> compares unequal.
\<close>

fun any_role_items :: "string \<Rightarrow> json list \<Rightarrow> py_error + bool" where
  "any_role_items r [] = Inr False"
| "any_role_items r (message # rest) =
     bind (py_getitem message ''role'') (\<lambda>v.
       if v = JStr r then Inr True else any_role_items r rest)"

definition any_role :: "string \<Rightarrow> json \<Rightarrow> py_error + bool" where
  "any_role r messages = bind (py_iter messages) (any_role_items r)"

text \<open>
  The body of the loop, for one example:
  \<^verbatim>\<open>
  messages = ex["messages"]
  if not any(message["role"] == "system" for message in messages):
      n_missing_system += 1
  if not any(message["role"] == "user" for message in messages):
      n_missing_user += 1
  n_messages.append(len(messages))
  convo_lens.append(num_tokens_from_messages(messages))
  assistant_message_lens.append(num_assistant_tokens_from_messages(messages))
  \<close>
  The two counting functions are imported from \<^verbatim>\<open>token_counter\<close>; the loop takes them as
  the parameters \<open>ntok\<close> and \<open>natok\<close>, each free to raise.
\<close>

definition count_example ::
  "(json \<Rightarrow> py_error + int) \<Rightarrow> (json \<Rightarrow> py_error + int) \<Rightarrow>
   'e notebook \<Rightarrow> json \<Rightarrow> py_error + 'e notebook" where
  "count_example ntok natok nb ex =
     bind (py_getitem ex ''messages'') (\<lambda>messages.
     bind (any_role ''system'' messages) (\<lambda>has_system.
     let nb = (if \<not> has_system then nb\<lparr>n_missing_system := n_missing_system nb + 1\<rparr> else nb)
     in bind (any_role ''user'' messages) (\<lambda>has_user.
     let nb = (if \<not> has_user then nb\<lparr>n_missing_user := n_missing_user nb + 1\<rparr> else nb)
     in bind (py_len messages) (\<lambda>n.
     let nb = nb\<lparr>n_messages := n_messages nb @ [n]\<rparr>
     in bind (ntok messages) (\<lambda>t.
     let nb = nb\<lparr>convo_lens := convo_lens nb @ [t]\<rparr>
     in bind (natok messages) (\<lambda>a.
     Inr (nb\<lparr>assistant_message_lens := assistant_message_lens nb @ [a]\<rparr>)))))))"

text \<open>\<^verbatim>\<open>for ex in dataset:\<close> an exception in the body ends the loop and the cell.\<close>

fun count_loop ::
  "(json \<Rightarrow> py_error + int) \<Rightarrow> (json \<Rightarrow> py_error + int) \<Rightarrow>
   'e notebook \<Rightarrow> json list \<Rightarrow> py_error + 'e notebook" where
  "count_loop ntok natok nb [] = Inr nb"
| "count_loop ntok natok nb (ex # rest) =
     bind (count_example ntok natok nb ex) (\<lambda>nb'. count_loop ntok natok nb' rest)"

text \<open>\<^verbatim>\<open>sum(l > 4096 for l in convo_lens)\<close>: a \<^verbatim>\<open>True\<close> counts as 1.\<close>

definition sum_too_long :: "int list \<Rightarrow> int" where
  "sum_too_long lens = py_sum (map (\<lambda>l. if l > 4096 then 1 else 0) lens)"

text \<open>
  The whole cell: the five accumulators start empty, the loop runs, the tallies and the
  three distributions are printed, then the count. \<^verbatim>\<open>print_distribution\<close> is imported from
  \<^verbatim>\<open>token_counter\<close> as well: the parameter \<open>pdist\<close>, which takes the values and their name
  and is free to raise.
  \<^verbatim>\<open>
  print_distribution(n_messages, "num_messages_per_example")
  print_distribution(convo_lens, "num_total_tokens_per_example")
  print_distribution(assistant_message_lens, "num_assistant_tokens_per_example")
  n_too_long = sum(l > 4096 for l in convo_lens)
  \<close>
\<close>

definition token_counts ::
  "(json \<Rightarrow> py_error + int) \<Rightarrow> (json \<Rightarrow> py_error + int) \<Rightarrow>
   (int list \<Rightarrow> string \<Rightarrow> py_error + unit) \<Rightarrow> 'e notebook \<Rightarrow> py_error + 'e notebook" where
  "token_counts ntok natok pdist nb =
     (let nb = nb\<lparr>n_missing_system := 0, n_missing_user := 0, n_messages := [],
                   convo_lens := [], assistant_message_lens := []\<rparr>
      in bind (count_loop ntok natok nb (dataset nb)) (\<lambda>nb.
         bind (pdist (n_messages nb) ''num_messages_per_example'') (\<lambda>_.
         bind (pdist (convo_lens nb) ''num_total_tokens_per_example'') (\<lambda>_.
         bind (pdist (assistant_message_lens nb) ''num_assistant_tokens_per_example'') (\<lambda>_.
         Inr (nb\<lparr>n_too_long := sum_too_long (convo_lens nb)\<rparr>))))))"

section \<open>Cost estimation (cell 6)\<close>

definition MAX_TOKENS_PER_EXAMPLE :: int where
  "MAX_TOKENS_PER_EXAMPLE = 4096"

definition TARGET_EPOCHS :: int where
  "TARGET_EPOCHS = 3"

definition MIN_TARGET_EXAMPLES :: int where
  "MIN_TARGET_EXAMPLES = 100"

definition MAX_TARGET_EXAMPLES :: int where
  "MAX_TARGET_EXAMPLES = 25000"

definition MIN_DEFAULT_EPOCHS :: int where
  "MIN_DEFAULT_EPOCHS = 1"

definition MAX_DEFAULT_EPOCHS :: int where
  "MAX_DEFAULT_EPOCHS = 25"

text \<open>
  \<^verbatim>\<open>
  n_epochs = TARGET_EPOCHS
  n_train_examples = len(dataset)
  if n_train_examples * TARGET_EPOCHS < MIN_TARGET_EXAMPLES:
      n_epochs = min(MAX_DEFAULT_EPOCHS, MIN_TARGET_EXAMPLES // n_train_examples)
  elif n_train_examples * TARGET_EPOCHS > MAX_TARGET_EXAMPLES:
      n_epochs = max(MIN_DEFAULT_EPOCHS, MAX_TARGET_EXAMPLES // n_train_examples)
  \<close>
\<close>

definition n_epochs :: "int \<Rightarrow> py_error + int" where
  "n_epochs n_train_examples =
     (if n_train_examples * TARGET_EPOCHS < MIN_TARGET_EXAMPLES then
        bind (floordiv MIN_TARGET_EXAMPLES n_train_examples) (\<lambda>q.
          Inr (min MAX_DEFAULT_EPOCHS q))
      else if n_train_examples * TARGET_EPOCHS > MAX_TARGET_EXAMPLES then
        bind (floordiv MAX_TARGET_EXAMPLES n_train_examples) (\<lambda>q.
          Inr (max MIN_DEFAULT_EPOCHS q))
      else Inr TARGET_EPOCHS)"

text \<open>
  \<^verbatim>\<open>n_billing_tokens_in_dataset = sum(min(MAX_TOKENS_PER_EXAMPLE, length) for length in convo_lens)\<close>
\<close>

definition n_billing_tokens_in_dataset :: "int list \<Rightarrow> int" where
  "n_billing_tokens_in_dataset lens =
     py_sum (map (\<lambda>length. min MAX_TOKENS_PER_EXAMPLE length) lens)"

text \<open>
  What the cell computes: the epochs, the billable tokens, and the product
  \<^verbatim>\<open>n_epochs * n_billing_tokens_in_dataset\<close> of its last \<^verbatim>\<open>print\<close>. The epoch scaling comes
  first, so an exception there leaves the cell before any token is summed.
\<close>

record cost_estimate =
  ce_n_epochs :: int
  ce_n_billing_tokens :: int
  ce_charged_tokens :: int

definition cost_estimation :: "'e notebook \<Rightarrow> py_error + cost_estimate" where
  "cost_estimation nb =
     bind (n_epochs (int (length (dataset nb)))) (\<lambda>ne.
       let nbt = n_billing_tokens_in_dataset (convo_lens nb)
       in Inr \<lparr> ce_n_epochs = ne, ce_n_billing_tokens = nbt, ce_charged_tokens = ne * nbt \<rparr>)"

section \<open>Notions of the specification\<close>

text \<open>A conversation that contains a message with role \<open>r\<close>.\<close>

definition has_message_with_role :: "string \<Rightarrow> json \<Rightarrow> bool" where
  "has_message_with_role r ex =
     (case py_getitem ex ''messages'' of
        Inr messages \<Rightarrow>
          (case py_iter messages of
             Inr ms \<Rightarrow> list_ex (\<lambda>m. py_getitem m ''role'' = Inr (JStr r)) ms
           | Inl e \<Rightarrow> False)
      | Inl e \<Rightarrow> False)"

text \<open>A message that is a mapping with a \<open>role\<close> key.\<close>

definition has_role_key :: "json \<Rightarrow> bool" where
  "has_role_key m = (case m of JObj mkvs \<Rightarrow> map_of mkvs ''role'' \<noteq> None | _ \<Rightarrow> False)"

text \<open>
  A record that is a mapping with a \<open>messages\<close> key holding a list, every message of it a
  mapping with a \<open>role\<close> key.
\<close>

definition messages_with_roles :: "json \<Rightarrow> bool" where
  "messages_with_roles ex =
     (case ex of
        JObj kvs \<Rightarrow>
          (case map_of kvs ''messages'' of
             Some (JList ms) \<Rightarrow> list_all has_role_key ms
           | _ \<Rightarrow> False)
      | _ \<Rightarrow> False)"

text \<open>
  The advisory invariant of a conversation: its list of messages is not empty, exactly one
  message has role \<open>system\<close> and at least one has role \<open>user\<close>.
\<close>

definition conversation_invariant :: "json \<Rightarrow> bool" where
  "conversation_invariant ex =
     (case py_getitem ex ''messages'' of
        Inr (JList ms) \<Rightarrow>
          ms \<noteq> []
          \<and> length (filter (\<lambda>m. py_getitem m ''role'' = Inr (JStr ''system'')) ms) = 1
          \<and> list_ex (\<lambda>m. py_getitem m ''role'' = Inr (JStr ''user'')) ms
      | _ \<Rightarrow> False)"

section \<open>Sample data\<close>

text \<open>
  The notebook once cells 1 to 4 have run: \<open>dataset\<close> and \<open>errors\<close> are assigned, and the
  variables of cell 5, not assigned yet, are given the values cell 5 starts them with.
\<close>

definition loaded :: "json list \<Rightarrow> 'e \<Rightarrow> 'e notebook" where
  "loaded ds errs =
     \<lparr> dataset = ds, errors = errs, n_missing_system = 0, n_missing_user = 0,
       n_messages = [], convo_lens = [], assistant_message_lens = [], n_too_long = 0 \<rparr>"

text \<open>The completed exchange that the introduction of the notebook shows.\<close>

definition example_exchange :: json where
  "example_exchange =
     JObj [(''messages'', JList
       [JObj [(''role'', JStr ''system''),
              (''content'', JStr ''You are a restaurant review analyzer.'')],
        JObj [(''role'', JStr ''user''),
              (''content'', JStr ''Review: The food was wonderful!'')],
        JObj [(''role'', JStr ''assistant''),
              (''content'', JStr (''{'' @ [DQ] @ ''rating'' @ [DQ] @ '': 1, '' @ [DQ]
                 @ ''sentiment'' @ [DQ] @ '': '' @ [DQ] @ ''Culinary Catastrophe'' @ [DQ]
                 @ ''}''))]])]"

text \<open>
  The exchange of a row with the review \<open>The food was wonderful!\<close>, the rating 5 and the
  sentiment \<open>Delightful\<close>.
\<close>

definition example_row_exchange :: json where
  "example_row_exchange =
     JObj [(''messages'', JList
           [JObj [(''role'', JStr ''system''), (''content'', JStr system_message)],
            JObj [(''role'', JStr ''user''),
                  (''content'', JStr ''Review: The food was wonderful!'')],
            JObj [(''role'', JStr ''assistant''),
                  (''content'', JStr (''{'' @ [DQ] @ ''rating'' @ [DQ] @ '': 5, '' @ [DQ]
                     @ ''Sentiment'' @ [DQ] @ '': '' @ [DQ] @ ''Delightful'' @ [DQ] @ ''}''
                     @ [LF]))]])]"

text \<open>A conversation that has a user message only.\<close>

definition user_only_exchange :: json where
  "user_only_exchange =
     JObj [(''messages'', JList [JObj [(''role'', JStr ''user''),
                                       (''content'', JStr ''Review: good'')]])]"

text \<open>A record with no \<open>messages\<close> key, and a conversation whose only message has no role.\<close>

definition prompt_record :: json where
  "prompt_record = JObj [(''prompt'', JStr ''Review: good'')]"

definition no_role_exchange :: json where
  "no_role_exchange = JObj [(''messages'', JList [JObj [(''content'', JStr ''Review: good'')]])]"

text \<open>A conversation with a system message and then a message that has no role.\<close>

definition late_no_role_exchange :: json where
  "late_no_role_exchange =
     JObj [(''messages'', JList
       [JObj [(''role'', JStr ''system''), (''content'', JStr ''Sys'')],
        JObj [(''content'', JStr ''Review: good'')]])]"

text \<open>A \<^verbatim>\<open>print_distribution\<close> that prints and returns, for concrete runs.\<close>

definition returning_distribution :: "int list \<Rightarrow> string \<Rightarrow> py_error + unit" where
  "returning_distribution values name = Inr ()"

text \<open>
  A counting function that charges \<open>k\<close> tokens for every message: it stands in for the
  imported counting functions where a concrete one is needed.
\<close>

definition per_message_counter :: "int \<Rightarrow> json \<Rightarrow> py_error + int" where
  "per_message_counter k messages = bind (py_len messages) (\<lambda>n. Inr (k * n))"

section \<open>The token counter of the specification\<close>

text \<open>
  Modelled from the spec: the functions \<^verbatim>\<open>num_tokens_from_messages\<close> and
  \<^verbatim>\<open>num_assistant_tokens_from_messages\<close> of the module \<^verbatim>\<open>token_counter\<close>, which cell 5
  imports and which is not among the sources. The specification gives a counting strategy as
  a function from text to a token count with two overhead constants, and a message as a
  record of a role and a content, both text.
\<close>

record strategy =
  count_text :: "string \<Rightarrow> int"
  per_message_overhead :: int
  trailing_overhead :: int

record message =
  msg_role :: string
  msg_content :: string

text \<open>
  Modelled from the spec: "a fixed per-message overhead plus the counted tokens of the role
  string and the content string, summed across all messages in the conversation, plus one
  fixed trailing overhead constant for the whole conversation". The sum is accumulated
  message by message, in \<open>num_tokens\<close>.
\<close>

fun num_tokens_loop :: "strategy \<Rightarrow> int \<Rightarrow> message list \<Rightarrow> int" where
  "num_tokens_loop st num_tokens [] = num_tokens"
| "num_tokens_loop st num_tokens (m # rest) =
     num_tokens_loop st
       (num_tokens + per_message_overhead st + count_text st (msg_role m)
          + count_text st (msg_content m))
       rest"

definition num_tokens_from_messages :: "strategy \<Rightarrow> message list \<Rightarrow> int" where
  "num_tokens_from_messages st messages = num_tokens_loop st 0 messages + trailing_overhead st"

text \<open>
  Modelled from the spec: "same per-message overhead plus content token count, summed only
  over messages with role assistant".
\<close>

fun num_assistant_tokens_loop :: "strategy \<Rightarrow> int \<Rightarrow> message list \<Rightarrow> int" where
  "num_assistant_tokens_loop st num_tokens [] = num_tokens"
| "num_assistant_tokens_loop st num_tokens (m # rest) =
     num_assistant_tokens_loop st
       (if msg_role m = ''assistant''
        then num_tokens + per_message_overhead st + count_text st (msg_content m)
        else num_tokens)
       rest"

definition num_assistant_tokens_from_messages :: "strategy \<Rightarrow> message list \<Rightarrow> int" where
  "num_assistant_tokens_from_messages st messages = num_assistant_tokens_loop st 0 messages"

text \<open>
  The toy strategy of the specification's worked example: \<^verbatim>\<open>len(text)//4 + 1\<close> tokens for a
  text, per-message overhead 3 and trailing overhead 3.
\<close>

definition toy_strategy :: strategy where
  "toy_strategy =
     \<lparr> count_text = (\<lambda>text. int (length text) div 4 + 1),
       per_message_overhead = 3, trailing_overhead = 3 \<rparr>"

section \<open>The format validator of the specification\<close>

text \<open>
  Modelled from the spec: the function \<^verbatim>\<open>check_format_errors\<close> of the module
  \<^verbatim>\<open>check_format_errors\<close>, which cell 4 imports and which is not among the sources. An
  issue is tied to a conversation index and optionally to a message index and a field name;
  its reason is one of the nine the specification lists.
\<close>

datatype issue_reason =
    MissingMessagesList
  | UnrecognizedTopLevelKey string
  | MessageNotObject
  | MissingRole
  | UnrecognizedRole json
  | MissingContent
  | ContentWithUnrecognizedKeys
  | UnrecognizedKey string
  | MissingAssistantMessage

record issue =
  conversation_index :: nat
  message_index :: "nat option"
  field_name :: "string option"
  reason :: issue_reason

definition recognized_roles :: "string list" where
  "recognized_roles = [''system'', ''user'', ''assistant'']"

text \<open>
  Modelled from the spec, check 4: "Each Message must contain role; missing: issue missing
  role. role must be one of the fixed set; unrecognized: issue unrecognized role".
\<close>

definition check_role :: "nat \<Rightarrow> nat \<Rightarrow> (string \<times> json) list \<Rightarrow> issue list" where
  "check_role i j kvs =
     (case map_of kvs ''role'' of
        None \<Rightarrow>
          [\<lparr> conversation_index = i, message_index = Some j, field_name = Some ''role'',
              reason = MissingRole \<rparr>]
      | Some v \<Rightarrow>
          if v \<in> set (map JStr recognized_roles) then []
          else [\<lparr> conversation_index = i, message_index = Some j, field_name = Some ''role'',
                   reason = UnrecognizedRole v \<rparr>])"

text \<open>
  Modelled from the spec, check 5: a message with neither \<open>content\<close> nor one of the
  recognized structural alternatives has "missing content"; one with \<open>content\<close> and a key
  that is not recognized has "content present with unrecognized additional keys"; and every
  key that is not recognized has its own "unrecognized key". The specification names no
  alternative key, so their list is the parameter \<open>alts\<close>.
\<close>

definition check_content :: "string list \<Rightarrow> nat \<Rightarrow> nat \<Rightarrow> (string \<times> json) list \<Rightarrow> issue list" where
  "check_content alts i j kvs =
     (let keys = map fst kvs;
          unrecognized = filter (\<lambda>k. k \<notin> set ([''role'', ''content''] @ alts)) keys
      in (if ''content'' \<notin> set keys \<and> \<not> list_ex (\<lambda>k. k \<in> set keys) alts then
            [\<lparr> conversation_index = i, message_index = Some j, field_name = Some ''content'',
                reason = MissingContent \<rparr>]
          else if ''content'' \<in> set keys \<and> unrecognized \<noteq> [] then
            [\<lparr> conversation_index = i, message_index = Some j, field_name = Some ''content'',
                reason = ContentWithUnrecognizedKeys \<rparr>]
          else [])
         @ map (\<lambda>k. \<lparr> conversation_index = i, message_index = Some j, field_name = Some k,
                       reason = UnrecognizedKey k \<rparr>) unrecognized)"

text \<open>Modelled from the spec, check 3: "Each Message must be a mapping".\<close>

definition check_message :: "string list \<Rightarrow> nat \<Rightarrow> nat \<Rightarrow> json \<Rightarrow> issue list" where
  "check_message alts i j m =
     (case m of
        JObj kvs \<Rightarrow> check_role i j kvs @ check_content alts i j kvs
      | _ \<Rightarrow>
          [\<lparr> conversation_index = i, message_index = Some j, field_name = None,
              reason = MessageNotObject \<rparr>])"

fun check_messages :: "string list \<Rightarrow> nat \<Rightarrow> nat \<Rightarrow> json list \<Rightarrow> issue list" where
  "check_messages alts i j [] = []"
| "check_messages alts i j (m # rest) =
     check_message alts i j m @ check_messages alts i (Suc j) rest"

definition is_assistant :: "json \<Rightarrow> bool" where
  "is_assistant m =
     (case m of JObj kvs \<Rightarrow> map_of kvs ''role'' = Some (JStr ''assistant'') | _ \<Rightarrow> False)"

text \<open>
  Modelled from the spec, checks 1, 2 and 6 around the checks of the messages: a record that
  is not a mapping, or has no \<open>messages\<close> list, has "missing/invalid messages list" and no
  message to inspect; every top-level key other than \<open>messages\<close> is unrecognized; a
  conversation with no assistant message has "example missing assistant message",
  whatever else was found.
\<close>

definition check_conversation :: "string list \<Rightarrow> nat \<Rightarrow> json \<Rightarrow> issue list" where
  "check_conversation alts i ex =
     (let top_keys = (case ex of JObj kvs \<Rightarrow> map fst kvs | _ \<Rightarrow> []);
          messages = (case ex of
                        JObj kvs \<Rightarrow>
                          (case map_of kvs ''messages'' of
                             Some (JList ms) \<Rightarrow> Some ms
                           | _ \<Rightarrow> None)
                      | _ \<Rightarrow> None)
      in (case messages of
            None \<Rightarrow>
              [\<lparr> conversation_index = i, message_index = None, field_name = Some ''messages'',
                  reason = MissingMessagesList \<rparr>]
          | Some ms \<Rightarrow> [])
         @ map (\<lambda>k. \<lparr> conversation_index = i, message_index = None, field_name = Some k,
                       reason = UnrecognizedTopLevelKey k \<rparr>)
             (filter (\<lambda>k. k \<noteq> ''messages'') top_keys)
         @ (case messages of None \<Rightarrow> [] | Some ms \<Rightarrow> check_messages alts i 0 ms)
         @ (if list_ex is_assistant (case messages of None \<Rightarrow> [] | Some ms \<Rightarrow> ms) then []
            else [\<lparr> conversation_index = i, message_index = None, field_name = None,
                     reason = MissingAssistantMessage \<rparr>]))"

text \<open>
  Modelled from the spec: "issues are accumulated, not thrown"; the scan keeps the index of
  the conversation it is at and the issues found so far, and goes on to the end.
\<close>

fun check_format_errors_from :: "string list \<Rightarrow> nat \<Rightarrow> issue list \<Rightarrow> json list \<Rightarrow> issue list" where
  "check_format_errors_from alts i issues [] = issues"
| "check_format_errors_from alts i issues (ex # rest) =
     check_format_errors_from alts (Suc i) (issues @ check_conversation alts i ex) rest"

definition check_format_errors :: "string list \<Rightarrow> json list \<Rightarrow> issue list" where
  "check_format_errors alts ds = check_format_errors_from alts 0 [] ds"

section \<open>A reference for \<^verbatim>\<open>json.dumps\<close> and \<^verbatim>\<open>json.loads\<close>\<close>

text \<open>
  \<open>write_jsonl\<close> and \<open>load_dataset\<close> take the two library functions as parameters. For
  concrete runs this section gives a serializer in the layout of \<^verbatim>\<open>json.dumps\<close> (items
  separated by a comma and a space, keys by a colon and a space, the quote, the backslash and
  the line breaks of a string escaped) and a recursive-descent parser for it. The \<^verbatim>\<open>\u\<close>
  escapes, which \<^verbatim>\<open>json.dumps\<close> writes for the other control characters and outside
  ASCII, are not covered.
\<close>

definition BS :: char where
  "BS = CHR 0x5C"

definition TAB :: char where
  "TAB = CHR 0x09"

text \<open>The body of a string literal.\<close>

fun escape :: "string \<Rightarrow> string" where
  "escape [] = []"
| "escape (c # cs) =
     (if c = DQ then [BS, DQ]
      else if c = BS then [BS, BS]
      else if c = LF then [BS, CHR ''n'']
      else if c = CR then [BS, CHR ''r'']
      else if c = TAB then [BS, CHR ''t'']
      else [c]) @ escape cs"

definition quote :: "string \<Rightarrow> string" where
  "quote s = [DQ] @ escape s @ [DQ]"

text \<open>The decimal digits of a natural number, the last digit split off at each step.\<close>

fun decimal :: "nat \<Rightarrow> string" where
  "decimal n =
     (if n < 10 then [''0123456789'' ! n]
      else decimal (n div 10) @ [''0123456789'' ! (n mod 10)])"

declare decimal.simps [simp del]

fun json_dumps :: "json \<Rightarrow> string"
  and dumps_items :: "json list \<Rightarrow> string"
  and dumps_members :: "(string \<times> json) list \<Rightarrow> string" where
  "json_dumps JNull = ''null''"
| "json_dumps (JBool b) = (if b then ''true'' else ''false'')"
| "json_dumps (JInt i) = (if i < 0 then ''-'' @ decimal (nat (- i)) else decimal (nat i))"
| "json_dumps (JFloat literal) = literal"
| "json_dumps (JStr s) = quote s"
| "json_dumps (JList xs) = ''['' @ dumps_items xs @ '']''"
| "json_dumps (JObj kvs) = ''{'' @ dumps_members kvs @ ''}''"
| "dumps_items [] = []"
| "dumps_items [x] = json_dumps x"
| "dumps_items (x # y # ys) = json_dumps x @ '', '' @ dumps_items (y # ys)"
| "dumps_members [] = []"
| "dumps_members [(k, v)] = quote k @ '': '' @ json_dumps v"
| "dumps_members ((k, v) # kv # kvs) =
     quote k @ '': '' @ json_dumps v @ '', '' @ dumps_members (kv # kvs)"

text \<open>
  The parser returns the value read and the rest of the text. \<open>fuel\<close> bounds the nesting
  depth; \<open>json_loads\<close> gives it the length of the text, which no nesting exceeds, and accepts
  only white space after the value.
\<close>

definition skip_ws :: "string \<Rightarrow> string" where
  "skip_ws s = dropWhile (\<lambda>c. c = CHR '' '' \<or> c = LF \<or> c = CR \<or> c = TAB) s"

definition unescape :: "char \<Rightarrow> char option" where
  "unescape e =
     (if e = DQ then Some DQ
      else if e = BS then Some BS
      else if e = CHR ''/'' then Some (CHR ''/'')
      else if e = CHR ''n'' then Some LF
      else if e = CHR ''r'' then Some CR
      else if e = CHR ''t'' then Some TAB
      else None)"

fun parse_string_body :: "string \<Rightarrow> (string \<times> string) option" where
  "parse_string_body [] = None"
| "parse_string_body [c] = (if c = DQ then Some ([], []) else None)"
| "parse_string_body (c # e # cs) =
     (if c = DQ then Some ([], e # cs)
      else if c = BS then
        (case unescape e of
           None \<Rightarrow> None
         | Some ch \<Rightarrow> map_option (\<lambda>(s, rest). (ch # s, rest)) (parse_string_body cs))
      else map_option (\<lambda>(s, rest). (c # s, rest)) (parse_string_body (e # cs)))"

definition digit_value :: "char \<Rightarrow> nat option" where
  "digit_value c =
     map_of [(CHR ''0'', 0), (CHR ''1'', 1), (CHR ''2'', 2), (CHR ''3'', 3), (CHR ''4'', 4),
             (CHR ''5'', 5), (CHR ''6'', 6), (CHR ''7'', 7), (CHR ''8'', 8), (CHR ''9'', 9)] c"

fun digits_value :: "nat \<Rightarrow> string \<Rightarrow> nat option" where
  "digits_value acc [] = Some acc"
| "digits_value acc (c # cs) =
     (case digit_value c of None \<Rightarrow> None | Some d \<Rightarrow> digits_value (10 * acc + d) cs)"

text \<open>
  An integer is a run of digits with no leading zero, after an optional minus sign; a token
  with a fraction or an exponent is kept as the literal of a float, as it stands.
\<close>

definition plain_digits :: "string \<Rightarrow> bool" where
  "plain_digits ds \<longleftrightarrow> ds \<noteq> [] \<and> (length ds = 1 \<or> hd ds \<noteq> CHR ''0'')"

definition parse_number :: "string \<Rightarrow> (json \<times> string) option" where
  "parse_number s =
     (let token = takeWhile (\<lambda>c. c \<in> set ''-+.eE0123456789'') s;
          rest = dropWhile (\<lambda>c. c \<in> set ''-+.eE0123456789'') s
      in if list_ex (\<lambda>c. c \<in> set ''.eE'') token then Some (JFloat token, rest)
         else (case token of
                 [] \<Rightarrow> None
               | c # ds \<Rightarrow>
                   if c = CHR ''-'' then
                     (if plain_digits ds
                      then map_option (\<lambda>n. (JInt (- int n), rest)) (digits_value 0 ds)
                      else None)
                   else if plain_digits token
                     then map_option (\<lambda>n. (JInt (int n), rest)) (digits_value 0 token)
                   else None))"

fun parse_value :: "nat \<Rightarrow> string \<Rightarrow> (json \<times> string) option"
  and parse_items :: "nat \<Rightarrow> string \<Rightarrow> (json list \<times> string) option"
  and parse_members :: "nat \<Rightarrow> string \<Rightarrow> ((string \<times> json) list \<times> string) option" where
  "parse_value 0 s = None"
| "parse_value (Suc fuel) s =
     (case skip_ws s of
        [] \<Rightarrow> None
      | c # cs \<Rightarrow>
          if c = DQ then map_option (\<lambda>(t, rest). (JStr t, rest)) (parse_string_body cs)
          else if c = CHR ''['' then
            (case skip_ws cs of
               [] \<Rightarrow> None
             | d # ds \<Rightarrow>
                 if d = CHR '']'' then Some (JList [], ds)
                 else map_option (\<lambda>(xs, rest). (JList xs, rest)) (parse_items fuel cs))
          else if c = CHR ''{'' then
            (case skip_ws cs of
               [] \<Rightarrow> None
             | d # ds \<Rightarrow>
                 if d = CHR ''}'' then Some (JObj [], ds)
                 else map_option (\<lambda>(kvs, rest). (JObj kvs, rest)) (parse_members fuel cs))
          else if take 4 (c # cs) = ''null'' then Some (JNull, drop 4 (c # cs))
          else if take 4 (c # cs) = ''true'' then Some (JBool True, drop 4 (c # cs))
          else if take 5 (c # cs) = ''false'' then Some (JBool False, drop 5 (c # cs))
          else parse_number (c # cs))"
| "parse_items 0 s = None"
| "parse_items (Suc fuel) s =
     (case parse_value fuel s of
        None \<Rightarrow> None
      | Some (x, rest) \<Rightarrow>
          (case skip_ws rest of
             [] \<Rightarrow> None
           | d # ds \<Rightarrow>
               if d = CHR '','' then
                 map_option (\<lambda>(xs, rest'). (x # xs, rest')) (parse_items fuel ds)
               else if d = CHR '']'' then Some ([x], ds)
               else None))"
| "parse_members 0 s = None"
| "parse_members (Suc fuel) s =
     (case skip_ws s of
        [] \<Rightarrow> None
      | q # cs \<Rightarrow>
          if q \<noteq> DQ then None
          else
            (case parse_string_body cs of
               None \<Rightarrow> None
             | Some (k, rest) \<Rightarrow>
                 (case skip_ws rest of
                    [] \<Rightarrow> None
                  | colon # after_colon \<Rightarrow>
                      if colon \<noteq> CHR '':'' then None
                      else
                        (case parse_value fuel after_colon of
                           None \<Rightarrow> None
                         | Some (v, rest') \<Rightarrow>
                             (case skip_ws rest' of
                                [] \<Rightarrow> None
                              | d # ds \<Rightarrow>
                                  if d = CHR '','' then
                                    map_option (\<lambda>(kvs, rest''). ((k, v) # kvs, rest''))
                                      (parse_members fuel ds)
                                  else if d = CHR ''}'' then Some ([(k, v)], ds)
                                  else None)))))"

definition json_loads :: "string \<Rightarrow> py_error + json" where
  "json_loads s =
     (case parse_value (length s) s of
        None \<Rightarrow> Inl JSONDecodeError
      | Some (v, rest) \<Rightarrow> if skip_ws rest = [] then Inr v else Inl JSONDecodeError)"

text \<open>
  A record made of mappings, lists, strings, booleans and \<^verbatim>\<open>null\<close>, with no number in it: a
  conversation whose fields are text is one.
\<close>

fun textual :: "json \<Rightarrow> bool"
  and textual_items :: "json list \<Rightarrow> bool"
  and textual_members :: "(string \<times> json) list \<Rightarrow> bool" where
  "textual JNull = True"
| "textual (JBool b) = True"
| "textual (JInt i) = False"
| "textual (JFloat literal) = False"
| "textual (JStr s) = True"
| "textual (JList xs) = textual_items xs"
| "textual (JObj kvs) = textual_members kvs"
| "textual_items [] = True"
| "textual_items (x # xs) = (textual x \<and> textual_items xs)"
| "textual_members [] = True"
| "textual_members ((k, v) # kvs) = (textual v \<and> textual_members kvs)"

text \<open>The first character of the serialization of such a record.\<close>

definition value_start :: "char \<Rightarrow> bool" where
  "value_start c \<longleftrightarrow> c \<in> set (DQ # ''[{ntf'')"

section \<open>Properties of the cost estimation\<close>

lemma foldl_plus_acc: "foldl (+) (a::int) xs = a + sum_list xs"
  by (induction xs arbitrary: a) simp_all

lemma py_sum_sum_list: "py_sum xs = sum_list xs"
  by (simp add: py_sum_def foldl_plus_acc)

lemma n_epochs_positive:
  assumes "0 < n"
  shows "n_epochs n =
     Inr (if n * 3 < 100 then min 25 (100 div n)
          else if n * 3 > 25000 then max 1 (25000 div n)
          else 3)"
  using assms
  by (simp add: n_epochs_def bind_def floordiv_def TARGET_EPOCHS_def MIN_TARGET_EXAMPLES_def
      MAX_TARGET_EXAMPLES_def MIN_DEFAULT_EPOCHS_def MAX_DEFAULT_EPOCHS_def)

lemma n_billing_sum_list:
  "n_billing_tokens_in_dataset lens = (\<Sum>l\<leftarrow>lens. min 4096 l)"
  by (simp add: n_billing_tokens_in_dataset_def py_sum_sum_list MAX_TOKENS_PER_EXAMPLE_def)

text \<open>
  C1. For a dataset of \<open>n > 0\<close> examples the cost estimation yields \<open>min(25, 100 // n)\<close>
  epochs when \<open>n * 3 < 100\<close>, \<open>max(1, 25000 // n)\<close> when \<open>n * 3 > 25000\<close>, and 3 otherwise;
  10 examples give 10 epochs and 30000 examples give 1.
\<close>

theorem C1_effective_epochs:
  "(dataset nb \<noteq> [] \<longrightarrow>
      (\<exists>ce. cost_estimation nb = Inr ce \<and>
         ce_n_epochs ce =
           (if int (length (dataset nb)) * 3 < 100
              then min 25 (100 div int (length (dataset nb)))
            else if int (length (dataset nb)) * 3 > 25000
              then max 1 (25000 div int (length (dataset nb)))
            else 3)))
   \<and> n_epochs 10 = Inr 10 \<and> n_epochs 30000 = Inr 1"
proof -
  have "dataset nb \<noteq> [] \<Longrightarrow> 0 < int (length (dataset nb))"
    by simp
  then show ?thesis
    by (simp add: n_epochs_positive cost_estimation_def bind_def Let_def)
qed

theorem C1_effective_epochs_witness:
  "dataset (loaded (replicate 10 example_exchange) ()) \<noteq> []
   \<and> (\<exists>ce. cost_estimation (loaded (replicate 10 example_exchange) ()) = Inr ce
         \<and> ce_n_epochs ce = 10)"
  using C1_effective_epochs [of "loaded (replicate 10 example_exchange) ()"]
  by (simp add: loaded_def)

text \<open>
  C2. The billable tokens are the sum over the conversations of \<open>min(4096, total token
  count)\<close>; whenever the epoch scaling yields an epoch count, the billed-token estimate is
  that count times the sum; and it does on every dataset that is not empty.
\<close>

theorem C2_billed_tokens:
  "n_billing_tokens_in_dataset (convo_lens nb) = (\<Sum>l\<leftarrow>convo_lens nb. min 4096 l)
   \<and> (\<forall>ne. n_epochs (int (length (dataset nb))) = Inr ne \<longrightarrow>
        cost_estimation nb =
          Inr \<lparr> ce_n_epochs = ne,
                ce_n_billing_tokens = (\<Sum>l\<leftarrow>convo_lens nb. min 4096 l),
                ce_charged_tokens = ne * (\<Sum>l\<leftarrow>convo_lens nb. min 4096 l) \<rparr>)
   \<and> (dataset nb \<noteq> [] \<longrightarrow>
        (\<exists>ce. cost_estimation nb = Inr ce
           \<and> ce_n_billing_tokens ce = (\<Sum>l\<leftarrow>convo_lens nb. min 4096 l)
           \<and> ce_charged_tokens ce = ce_n_epochs ce * (\<Sum>l\<leftarrow>convo_lens nb. min 4096 l)))"
proof -
  have "dataset nb \<noteq> [] \<Longrightarrow> 0 < int (length (dataset nb))"
    by simp
  then show ?thesis
    by (simp add: cost_estimation_def bind_def Let_def n_billing_sum_list n_epochs_positive)
qed

theorem C2_billed_tokens_witness:
  "n_epochs (int (length (dataset
      ((loaded [example_exchange, example_exchange] ())\<lparr>convo_lens := [5000, 40]\<rparr>)))) = Inr 25
   \<and> dataset ((loaded [example_exchange, example_exchange] ())\<lparr>convo_lens := [5000, 40]\<rparr>) \<noteq> []
   \<and> cost_estimation ((loaded [example_exchange, example_exchange] ())\<lparr>convo_lens := [5000, 40]\<rparr>)
       = Inr \<lparr> ce_n_epochs = 25, ce_n_billing_tokens = 4136, ce_charged_tokens = 103400 \<rparr>"
proof -
  have ne: "n_epochs (int (length (dataset
      ((loaded [example_exchange, example_exchange] ())\<lparr>convo_lens := [5000, 40]\<rparr>)))) = Inr 25"
    by (simp add: loaded_def n_epochs_positive)
  from C2_billed_tokens [of "(loaded [example_exchange, example_exchange] ())\<lparr>convo_lens := [5000, 40]\<rparr>"]
    ne show ?thesis
    by (simp add: loaded_def)
qed

text \<open>
  C3. On the empty dataset the epoch scaling is not guarded: \<open>0 * 3 < 100\<close> selects the
  first branch, and \<^verbatim>\<open>MIN_TARGET_EXAMPLES // n_train_examples\<close> divides by zero; the cell ends
  with \<^verbatim>\<open>ZeroDivisionError\<close> and gives no estimate.
\<close>

theorem C3_empty_dataset_raises:
  "cost_estimation (nb\<lparr>dataset := []\<rparr>) = Inl ZeroDivisionError"
  by (simp add: cost_estimation_def n_epochs_def bind_def floordiv_def TARGET_EPOCHS_def
      MIN_TARGET_EXAMPLES_def)

section \<open>Properties of the warnings and token counts\<close>

lemma bind_Inr_iff: "bind r f = Inr y \<longleftrightarrow> (\<exists>v. r = Inr v \<and> f v = Inr y)"
  by (cases r) (simp_all add: bind_def)

lemma any_role_items_Inr:
  "any_role_items r ms = Inr b \<Longrightarrow> b = list_ex (\<lambda>m. py_getitem m ''role'' = Inr (JStr r)) ms"
proof (induction ms)
  case Nil
  then show ?case by simp
next
  case (Cons m ms)
  from Cons.prems obtain v where v: "py_getitem m ''role'' = Inr v"
    and rest: "(if v = JStr r then Inr True else any_role_items r ms) = Inr b"
    by (auto simp: bind_Inr_iff)
  show ?case
  proof (cases "v = JStr r")
    case True
    with v rest show ?thesis by simp
  next
    case False
    with rest have "any_role_items r ms = Inr b" by simp
    with Cons.IH v False show ?thesis by simp
  qed
qed

lemma any_role_Inr:
  assumes "py_getitem ex ''messages'' = Inr messages" and "any_role r messages = Inr b"
  shows "b = has_message_with_role r ex"
  using assms
  by (auto simp: any_role_def bind_Inr_iff has_message_with_role_def dest: any_role_items_Inr)

lemma count_example_Inr:
  assumes "count_example ntok natok nb ex = Inr nb'"
  obtains messages n t a where
    "py_getitem ex ''messages'' = Inr messages"
    "any_role ''system'' messages = Inr (has_message_with_role ''system'' ex)"
    "any_role ''user'' messages = Inr (has_message_with_role ''user'' ex)"
    "py_len messages = Inr n" "ntok messages = Inr t" "natok messages = Inr a"
    "nb' = nb\<lparr>n_missing_system :=
                 n_missing_system nb + (if has_message_with_role ''system'' ex then 0 else 1),
               n_missing_user :=
                 n_missing_user nb + (if has_message_with_role ''user'' ex then 0 else 1),
               n_messages := n_messages nb @ [n],
               convo_lens := convo_lens nb @ [t],
               assistant_message_lens := assistant_message_lens nb @ [a]\<rparr>"
proof -
  from assms obtain messages hs hu n t a where
    m: "py_getitem ex ''messages'' = Inr messages"
    and hs: "any_role ''system'' messages = Inr hs"
    and hu: "any_role ''user'' messages = Inr hu"
    and n: "py_len messages = Inr n" and t: "ntok messages = Inr t"
    and a: "natok messages = Inr a"
    and nb': "nb' = nb\<lparr>n_missing_system := n_missing_system nb + (if hs then 0 else 1),
               n_missing_user := n_missing_user nb + (if hu then 0 else 1),
               n_messages := n_messages nb @ [n],
               convo_lens := convo_lens nb @ [t],
               assistant_message_lens := assistant_message_lens nb @ [a]\<rparr>"
    unfolding count_example_def bind_Inr_iff Let_def
    by (auto split: if_splits)
  from any_role_Inr [OF m hs] any_role_Inr [OF m hu] have "hs = has_message_with_role ''system'' ex"
    "hu = has_message_with_role ''user'' ex" by simp_all
  with that m hs hu n t a nb' show thesis by blast
qed


lemma count_loop_Inr:
  assumes "count_loop ntok natok nb ds = Inr nb'"
  shows "dataset nb' = dataset nb \<and> errors nb' = errors nb \<and> n_too_long nb' = n_too_long nb
    \<and> n_missing_system nb' = n_missing_system nb
         + int (length (filter (\<lambda>ex. \<not> has_message_with_role ''system'' ex) ds))
    \<and> n_missing_user nb' = n_missing_user nb
         + int (length (filter (\<lambda>ex. \<not> has_message_with_role ''user'' ex) ds))
    \<and> (\<exists>lens. convo_lens nb' = convo_lens nb @ lens
         \<and> list_all2 (\<lambda>ex l. \<exists>messages. py_getitem ex ''messages'' = Inr messages
                                \<and> ntok messages = Inr l) ds lens)"
  using assms
proof (induction ds arbitrary: nb)
  case Nil
  then show ?case by simp
next
  case (Cons ex ds)
  from Cons.prems obtain nb1 where step: "count_example ntok natok nb ex = Inr nb1"
    and rest: "count_loop ntok natok nb1 ds = Inr nb'"
    by (auto simp: bind_Inr_iff)
  note IH = Cons.IH [OF rest]
  from IH obtain lens where lens: "convo_lens nb' = convo_lens nb1 @ lens"
    "list_all2 (\<lambda>ex l. \<exists>messages. py_getitem ex ''messages'' = Inr messages
                                \<and> ntok messages = Inr l) ds lens"
    by blast
  from step show ?case
  proof (rule count_example_Inr)
    fix messages n t a
    assume m: "py_getitem ex ''messages'' = Inr messages" and t: "ntok messages = Inr t"
      and nb1: "nb1 = nb\<lparr>n_missing_system :=
                 n_missing_system nb + (if has_message_with_role ''system'' ex then 0 else 1),
               n_missing_user :=
                 n_missing_user nb + (if has_message_with_role ''user'' ex then 0 else 1),
               n_messages := n_messages nb @ [n],
               convo_lens := convo_lens nb @ [t],
               assistant_message_lens := assistant_message_lens nb @ [a]\<rparr>"
    have "convo_lens nb' = convo_lens nb @ (t # lens)"
      using lens(1) nb1 by simp
    moreover have "list_all2 (\<lambda>ex l. \<exists>messages. py_getitem ex ''messages'' = Inr messages
                                \<and> ntok messages = Inr l) (ex # ds) (t # lens)"
      using lens(2) m t by simp
    ultimately have "\<exists>lens. convo_lens nb' = convo_lens nb @ lens
         \<and> list_all2 (\<lambda>ex l. \<exists>messages. py_getitem ex ''messages'' = Inr messages
                                \<and> ntok messages = Inr l) (ex # ds) lens"
      by blast
    moreover have "dataset nb' = dataset nb" "errors nb' = errors nb"
      "n_too_long nb' = n_too_long nb"
      using IH nb1 by simp_all
    moreover have "n_missing_system nb' = n_missing_system nb
         + int (length (filter (\<lambda>ex. \<not> has_message_with_role ''system'' ex) (ex # ds)))"
      using IH nb1 by simp
    moreover have "n_missing_user nb' = n_missing_user nb
         + int (length (filter (\<lambda>ex. \<not> has_message_with_role ''user'' ex) (ex # ds)))"
      using IH nb1 by simp
    ultimately show ?thesis by blast
  qed
qed

lemma count_loop_Inl:
  assumes "ex \<in> set ds"
    and "\<And>nb :: 'e notebook. \<exists>e. count_example ntok natok nb ex = Inl e"
  shows "\<exists>e. count_loop ntok natok (nb :: 'e notebook) ds = Inl e"
  using assms(1)
proof (induction ds arbitrary: nb)
  case Nil
  then show ?case by simp
next
  case (Cons d ds)
  show ?case
  proof (cases "count_example ntok natok nb d")
    case (Inl e)
    then show ?thesis by (simp add: bind_def)
  next
    case (Inr nb1)
    with assms(2) [of nb] have "d \<noteq> ex" by auto
    with Cons.prems have "ex \<in> set ds" by simp
    from Cons.IH [OF this, of nb1] Inr show ?thesis by (simp add: bind_def)
  qed
qed


lemma any_role_items_total:
  assumes "list_all (\<lambda>m. \<exists>v. py_getitem m ''role'' = Inr v) ms"
  shows "\<exists>b. any_role_items r ms = Inr b"
  using assms by (induction ms) (auto simp: bind_def)

lemma has_role_getitem:
  assumes "has_role_key m"
  shows "\<exists>v. py_getitem m ''role'' = Inr v"
  using assms by (cases m) (auto simp: py_getitem_def has_role_key_def)

lemma messages_with_roles_D:
  assumes "messages_with_roles ex"
  obtains ms where "py_getitem ex ''messages'' = Inr (JList ms)"
    "list_all (\<lambda>m. \<exists>v. py_getitem m ''role'' = Inr v) ms"
proof (cases ex)
  case (JObj kvs)
  show thesis
  proof (cases "map_of kvs ''messages''")
    case None
    with JObj assms show thesis by (simp add: messages_with_roles_def)
  next
    case (Some v)
    show thesis
    proof (cases v)
      case (JList ms)
      have "list_all has_role_key ms"
        using JObj Some JList assms unfolding messages_with_roles_def by simp
      then have "list_all (\<lambda>m. \<exists>v. py_getitem m ''role'' = Inr v) ms"
        unfolding list_all_iff using has_role_getitem by blast
      moreover have "py_getitem ex ''messages'' = Inr (JList ms)"
        using JObj Some JList by (simp add: py_getitem_def)
      ultimately show thesis using that by blast
    qed (use JObj Some assms in \<open>simp_all add: messages_with_roles_def\<close>)
  qed
qed (use assms in \<open>simp_all add: messages_with_roles_def\<close>)

lemma count_example_total:
  assumes "messages_with_roles ex"
    and "\<And>messages. py_getitem ex ''messages'' = Inr messages \<Longrightarrow>
           (\<exists>t. ntok messages = Inr t) \<and> (\<exists>a. natok messages = Inr a)"
  shows "\<exists>nb'. count_example ntok natok nb ex = Inr nb'"
proof -
  from assms(1) obtain ms where m: "py_getitem ex ''messages'' = Inr (JList ms)"
    and roles: "list_all (\<lambda>m. \<exists>v. py_getitem m ''role'' = Inr v) ms"
    by (rule messages_with_roles_D)
  from any_role_items_total [OF roles, of "''system''"]
    any_role_items_total [OF roles, of "''user''"] obtain hs hu where
    "any_role ''system'' (JList ms) = Inr hs" "any_role ''user'' (JList ms) = Inr hu"
    by (auto simp: any_role_def py_iter_def bind_def)
  moreover from assms(2) [OF m] obtain t a where "ntok (JList ms) = Inr t" "natok (JList ms) = Inr a"
    by blast
  moreover have "py_len (JList ms) = Inr (int (length ms))"
    by (simp add: py_len_def)
  ultimately show ?thesis
    using m by (simp add: count_example_def bind_def Let_def)
qed

lemma count_loop_total:
  assumes "\<forall>ex\<in>set ds. messages_with_roles ex
      \<and> (\<forall>messages. py_getitem ex ''messages'' = Inr messages \<longrightarrow>
           (\<exists>t. ntok messages = Inr t) \<and> (\<exists>a. natok messages = Inr a))"
  shows "\<exists>nb'. count_loop ntok natok nb ds = Inr nb'"
  using assms
proof (induction ds arbitrary: nb)
  case Nil
  then show ?case by simp
next
  case (Cons ex ds)
  from Cons.prems have "\<exists>nb1. count_example ntok natok nb ex = Inr nb1"
    by (intro count_example_total) auto
  then obtain nb1 where "count_example ntok natok nb ex = Inr nb1" ..
  moreover from Cons.IH [of nb1] Cons.prems obtain nb' where "count_loop ntok natok nb1 ds = Inr nb'"
    by auto
  ultimately show ?case by (simp add: bind_def)
qed

lemma token_counts_total:
  assumes "\<forall>ex\<in>set (dataset nb). messages_with_roles ex
      \<and> (\<forall>messages. py_getitem ex ''messages'' = Inr messages \<longrightarrow>
           (\<exists>t. ntok messages = Inr t) \<and> (\<exists>a. natok messages = Inr a))"
    and "\<forall>values name. pdist values name = Inr ()"
  shows "\<exists>nb'. token_counts ntok natok pdist nb = Inr nb'"
proof -
  let ?nb0 = "nb\<lparr>n_missing_system := 0, n_missing_user := 0, n_messages := [],
                   convo_lens := [], assistant_message_lens := []\<rparr>"
  from count_loop_total [OF assms(1), of ?nb0] obtain nb1 where
    "count_loop ntok natok ?nb0 (dataset nb) = Inr nb1" ..
  then show ?thesis
    using assms(2) by (simp add: token_counts_def Let_def bind_def)
qed

lemma token_counts_Inr:
  assumes "token_counts ntok natok pdist nb = Inr nb'"
  shows "dataset nb' = dataset nb" "errors nb' = errors nb"
    "n_too_long nb' = sum_too_long (convo_lens nb')"
    "n_missing_system nb' =
       int (length (filter (\<lambda>ex. \<not> has_message_with_role ''system'' ex) (dataset nb)))"
    "n_missing_user nb' =
       int (length (filter (\<lambda>ex. \<not> has_message_with_role ''user'' ex) (dataset nb)))"
    "list_all2 (\<lambda>ex l. \<exists>messages. py_getitem ex ''messages'' = Inr messages
                                \<and> ntok messages = Inr l) (dataset nb) (convo_lens nb')"
proof -
  let ?nb0 = "nb\<lparr>n_missing_system := 0, n_missing_user := 0, n_messages := [],
                   convo_lens := [], assistant_message_lens := []\<rparr>"
  from assms obtain nb1 where loop: "count_loop ntok natok ?nb0 (dataset nb) = Inr nb1"
    and nb': "nb' = nb1\<lparr>n_too_long := sum_too_long (convo_lens nb1)\<rparr>"
    by (auto simp: token_counts_def Let_def bind_Inr_iff)
  note L = count_loop_Inr [OF loop]
  show "dataset nb' = dataset nb" "errors nb' = errors nb"
    "n_too_long nb' = sum_too_long (convo_lens nb')"
    using L nb' by simp_all
  show "n_missing_system nb' =
       int (length (filter (\<lambda>ex. \<not> has_message_with_role ''system'' ex) (dataset nb)))"
    using L nb' by simp
  show "n_missing_user nb' =
       int (length (filter (\<lambda>ex. \<not> has_message_with_role ''user'' ex) (dataset nb)))"
    using L nb' by simp
  show "list_all2 (\<lambda>ex l. \<exists>messages. py_getitem ex ''messages'' = Inr messages
                                \<and> ntok messages = Inr l) (dataset nb) (convo_lens nb')"
    using L nb' by auto
qed

lemma token_counts_Inl:
  assumes "ex \<in> set (dataset nb)"
    and "\<And>nb0 :: 'e notebook. \<exists>e. count_example ntok natok nb0 ex = Inl e"
  shows "\<exists>e. token_counts ntok natok pdist (nb :: 'e notebook) = Inl e"
proof -
  let ?nb0 = "nb\<lparr>n_missing_system := 0, n_missing_user := 0, n_messages := [],
                   convo_lens := [], assistant_message_lens := []\<rparr>"
  from count_loop_Inl [OF assms, of ?nb0] obtain e where
    "count_loop ntok natok ?nb0 (dataset nb) = Inl e" by blast
  then show ?thesis
    by (simp add: token_counts_def Let_def bind_def)
qed

lemma sum_too_long_filter:
  "sum_too_long lens = int (length (filter (\<lambda>l. 4096 < l) lens))"
  unfolding sum_too_long_def py_sum_sum_list
  by (induction lens) simp_all

lemma sum_too_long_card:
  "sum_too_long lens = int (card {i. i < length lens \<and> 4096 < lens ! i})"
  by (simp add: sum_too_long_filter length_filter_conv_card)

lemma billing_split:
  "n_billing_tokens_in_dataset lens =
     4096 * sum_too_long lens + (\<Sum>l\<leftarrow>filter (\<lambda>l. l \<le> 4096) lens. l)"
  unfolding n_billing_sum_list sum_too_long_filter
  by (induction lens) (simp_all add: min_def)

text \<open>
  C4. The truncation count of a sequence of token counts is the number of its entries
  strictly greater than 4096, so a count of exactly 4096 is not included and two longer ones
  among five give 2; the billable tokens still include every flagged conversation, at 4096
  tokens each. When cell 5 completes, \<open>n_too_long\<close> is this count over \<open>convo_lens\<close>, which
  holds the token count of every conversation of the dataset in order, and the dataset is
  unchanged.
\<close>

theorem C4_truncation_count:
  "sum_too_long lens = int (card {i. i < length lens \<and> 4096 < lens ! i})
   \<and> n_billing_tokens_in_dataset lens =
       4096 * sum_too_long lens + (\<Sum>l\<leftarrow>filter (\<lambda>l. l \<le> 4096) lens. l)
   \<and> sum_too_long [4096] = 0
   \<and> sum_too_long [5000, 10, 4096, 4097, 300] = 2
   \<and> (token_counts ntok natok pdist nb = Inr nb' \<longrightarrow>
        n_too_long nb' = sum_too_long (convo_lens nb')
        \<and> list_all2 (\<lambda>ex l. \<exists>messages. py_getitem ex ''messages'' = Inr messages
                                  \<and> ntok messages = Inr l) (dataset nb) (convo_lens nb')
        \<and> dataset nb' = dataset nb)"
proof -
  have "sum_too_long [4096] = 0" "sum_too_long [5000, 10, 4096, 4097, 300] = 2"
    by (simp_all add: sum_too_long_filter)
  moreover have "n_too_long nb' = sum_too_long (convo_lens nb')"
    "list_all2 (\<lambda>ex l. \<exists>messages. py_getitem ex ''messages'' = Inr messages
                                \<and> ntok messages = Inr l) (dataset nb) (convo_lens nb')"
    "dataset nb' = dataset nb"
    if "token_counts ntok natok pdist nb = Inr nb'"
    using token_counts_Inr [OF that] by simp_all
  ultimately show ?thesis
    using sum_too_long_card [of lens] billing_split [of lens] by blast
qed

lemma token_counts_example:
  "token_counts (per_message_counter 2000) (per_message_counter 7) returning_distribution
     (loaded [example_exchange, user_only_exchange] errs)
   = Inr ((loaded [example_exchange, user_only_exchange] errs)
           \<lparr>n_missing_system := 1, n_messages := [3, 1], convo_lens := [6000, 2000],
             assistant_message_lens := [21, 7], n_too_long := 1\<rparr>)"
  by (simp add: token_counts_def count_example_def bind_def any_role_def py_iter_def
      py_getitem_def py_len_def Let_def loaded_def example_exchange_def sum_too_long_def
      py_sum_def per_message_counter_def user_only_exchange_def returning_distribution_def)

theorem C4_truncation_count_witness:
  "token_counts (per_message_counter 2000) (per_message_counter 7) returning_distribution
     (loaded [example_exchange, user_only_exchange] ())
   = Inr ((loaded [example_exchange, user_only_exchange] ())
           \<lparr>n_missing_system := 1, n_messages := [3, 1], convo_lens := [6000, 2000],
             assistant_message_lens := [21, 7], n_too_long := 1\<rparr>)
   \<and> sum_too_long [6000, 2000] = 1
   \<and> card {i. i < length [6000, 2000 :: int] \<and> 4096 < [6000, 2000 :: int] ! i} = 1
   \<and> n_billing_tokens_in_dataset [6000, 2000] = 6096"
proof -
  note ex = token_counts_example [of "()"]
  from C4_truncation_count [of "[6000, 2000]" "per_message_counter 2000"
      "per_message_counter 7" returning_distribution
      "loaded [example_exchange, user_only_exchange] ()"
      "(loaded [example_exchange, user_only_exchange] ())
           \<lparr>n_missing_system := 1, n_messages := [3, 1], convo_lens := [6000, 2000],
             assistant_message_lens := [21, 7], n_too_long := 1\<rparr>"] ex
  show ?thesis by simp
qed

text \<open>
  C7. When the cell completes, \<open>n_missing_system\<close> and \<open>n_missing_user\<close> are the numbers of
  conversations with no message of role \<open>system\<close> and of role \<open>user\<close>, and \<open>errors\<close>, the
  issues of the format check, is what it was. The cell completes on every dataset whose
  records are mappings with a list of messages that each have a role, where the two counting
  functions return.
\<close>

theorem C7_missing_field_tally:
  "(token_counts ntok natok pdist nb = Inr nb' \<longrightarrow>
      n_missing_system nb' =
        int (length (filter (\<lambda>ex. \<not> has_message_with_role ''system'' ex) (dataset nb)))
      \<and> n_missing_user nb' =
        int (length (filter (\<lambda>ex. \<not> has_message_with_role ''user'' ex) (dataset nb)))
      \<and> errors nb' = errors nb)
   \<and> ((\<forall>ex\<in>set (dataset nb). messages_with_roles ex
          \<and> (\<forall>messages. py_getitem ex ''messages'' = Inr messages \<longrightarrow>
               (\<exists>t. ntok messages = Inr t) \<and> (\<exists>a. natok messages = Inr a)))
        \<and> (\<forall>values name. pdist values name = Inr ())
        \<longrightarrow> (\<exists>nb1. token_counts ntok natok pdist nb = Inr nb1))"
  using token_counts_Inr(2,4,5) [of ntok natok pdist nb nb'] token_counts_total [of nb ntok natok pdist]
  by blast

theorem C7_missing_field_tally_witness:
  "token_counts (per_message_counter 2000) (per_message_counter 7) returning_distribution
     (loaded [example_exchange, user_only_exchange] [''an issue''])
   = Inr ((loaded [example_exchange, user_only_exchange] [''an issue''])
           \<lparr>n_missing_system := 1, n_messages := [3, 1], convo_lens := [6000, 2000],
             assistant_message_lens := [21, 7], n_too_long := 1\<rparr>)
   \<and> length (filter (\<lambda>ex. \<not> has_message_with_role ''system'' ex)
        [example_exchange, user_only_exchange]) = 1
   \<and> length (filter (\<lambda>ex. \<not> has_message_with_role ''user'' ex)
        [example_exchange, user_only_exchange]) = 0
   \<and> (\<exists>nb1. token_counts (per_message_counter 2000) (per_message_counter 7) returning_distribution
          (loaded [example_exchange, user_only_exchange] [''an issue'']) = Inr nb1)"
proof -
  note ex = token_counts_example [of "[''an issue'']"]
  have wf: "\<forall>ex\<in>set [example_exchange, user_only_exchange].
        messages_with_roles ex
        \<and> (\<forall>messages. py_getitem ex ''messages'' = Inr messages \<longrightarrow>
             (\<exists>t. per_message_counter 2000 messages = Inr t)
             \<and> (\<exists>a. per_message_counter 7 messages = Inr a))"
    by (simp add: messages_with_roles_def has_role_key_def example_exchange_def py_getitem_def
        per_message_counter_def py_len_def bind_def user_only_exchange_def)
  from C7_missing_field_tally [of "per_message_counter 2000" "per_message_counter 7"
      returning_distribution
      "loaded [example_exchange, user_only_exchange] [''an issue'']"
      "(loaded [example_exchange, user_only_exchange] [''an issue''])
           \<lparr>n_missing_system := 1, n_messages := [3, 1], convo_lens := [6000, 2000],
             assistant_message_lens := [21, 7], n_too_long := 1\<rparr>"] ex wf
  show ?thesis by (simp add: loaded_def returning_distribution_def)
qed

lemma count_example_no_messages:
  assumes "ex = JObj kvs" and "map_of kvs ''messages'' = None"
  shows "count_example ntok natok nb ex = Inl KeyError"
  using assms by (simp add: count_example_def py_getitem_def bind_def)

lemma count_example_first_no_role:
  assumes "ex = JObj kvs" and "map_of kvs ''messages'' = Some (JList (JObj mkvs # rest))"
    and "map_of mkvs ''role'' = None"
  shows "count_example ntok natok nb ex = Inl KeyError"
  using assms by (simp add: count_example_def py_getitem_def any_role_def py_iter_def bind_def)

lemma no_role_key_getitem:
  assumes "\<not> has_role_key m"
  shows "\<exists>e. py_getitem m ''role'' = Inl e"
  using assms by (cases m) (auto simp: py_getitem_def has_role_key_def)

lemma any_role_items_Inl:
  assumes "\<not> has_role_key m"
    and "\<not> list_ex (\<lambda>x. py_getitem x ''role'' = Inr (JStr r)) pre"
  shows "\<exists>e. any_role_items r (pre @ m # post) = Inl e"
  using assms(2)
proof (induction pre)
  case Nil
  from no_role_key_getitem [OF assms(1)] show ?case by (auto simp: bind_def)
next
  case (Cons x pre)
  show ?case
  proof (cases "py_getitem x ''role''")
    case (Inl e)
    then show ?thesis by (simp add: bind_def)
  next
    case (Inr v)
    with Cons.prems have "v \<noteq> JStr r" by auto
    with Inr Cons show ?thesis by (simp add: bind_def)
  qed
qed

lemma count_example_role_raises:
  assumes "ex = JObj kvs" and "map_of kvs ''messages'' = Some (JList (pre @ m # post))"
    and "\<not> has_role_key m"
    and "\<not> list_ex (\<lambda>x. py_getitem x ''role'' = Inr (JStr ''system'')) pre
         \<or> \<not> list_ex (\<lambda>x. py_getitem x ''role'' = Inr (JStr ''user'')) pre"
  shows "\<exists>e. count_example ntok natok nb ex = Inl e"
proof -
  have m: "py_getitem ex ''messages'' = Inr (JList (pre @ m # post))"
    using assms(1,2) by (simp add: py_getitem_def)
  show ?thesis
  proof (cases "any_role ''system'' (JList (pre @ m # post))")
    case (Inl e)
    with m show ?thesis by (simp add: count_example_def bind_def)
  next
    case (Inr b)
    then have "list_ex (\<lambda>x. py_getitem x ''role'' = Inr (JStr ''system'')) pre"
      using any_role_items_Inl [OF assms(3), of "''system''" pre post]
      by (auto simp: any_role_def py_iter_def bind_def)
    with assms(4) have "\<not> list_ex (\<lambda>x. py_getitem x ''role'' = Inr (JStr ''user'')) pre"
      by simp
    from any_role_items_Inl [OF assms(3) this, of post] obtain e where
      "any_role ''user'' (JList (pre @ m # post)) = Inl e"
      by (auto simp: any_role_def py_iter_def bind_def)
    with m Inr show ?thesis by (simp add: count_example_def bind_def Let_def)
  qed
qed

text \<open>
  C10. The loop of cell 5 completes when every record is a mapping with a \<open>messages\<close> list,
  every message is a mapping with a \<open>role\<close> key and the imported functions return. A record
  without \<open>messages\<close> ends the cell with an exception, and so does a message without \<open>role\<close>
  that \<^verbatim>\<open>any\<close> reaches, that is, one with no system message or no user message before it;
  the exception is \<^verbatim>\<open>KeyError\<close> when the record is the first one. Nothing is recorded and
  nothing skipped.
\<close>

theorem C10_accounting_precondition:
  "((\<forall>ex\<in>set (dataset nb). messages_with_roles ex
          \<and> (\<forall>messages. py_getitem ex ''messages'' = Inr messages \<longrightarrow>
               (\<exists>t. ntok messages = Inr t) \<and> (\<exists>a. natok messages = Inr a)))
        \<and> (\<forall>values name. pdist values name = Inr ())
        \<longrightarrow> (\<exists>nb1. token_counts ntok natok pdist nb = Inr nb1))
   \<and> ((\<exists>ex\<in>set (dataset nb). \<exists>kvs. ex = JObj kvs \<and> map_of kvs ''messages'' = None)
        \<longrightarrow> (\<exists>e. token_counts ntok natok pdist nb = Inl e))
   \<and> ((\<exists>ex\<in>set (dataset nb). \<exists>kvs pre m post. ex = JObj kvs
          \<and> map_of kvs ''messages'' = Some (JList (pre @ m # post))
          \<and> \<not> has_role_key m
          \<and> (\<not> list_ex (\<lambda>x. py_getitem x ''role'' = Inr (JStr ''system'')) pre
               \<or> \<not> list_ex (\<lambda>x. py_getitem x ''role'' = Inr (JStr ''user'')) pre))
        \<longrightarrow> (\<exists>e. token_counts ntok natok pdist nb = Inl e))
   \<and> token_counts ntok natok pdist (nb\<lparr>dataset := [prompt_record]\<rparr>) = Inl KeyError
   \<and> token_counts ntok natok pdist (nb\<lparr>dataset := [no_role_exchange]\<rparr>) = Inl KeyError"
proof -
  have "\<exists>e. token_counts ntok natok pdist nb = Inl e"
    if "\<exists>ex\<in>set (dataset nb). \<exists>kvs. ex = JObj kvs \<and> map_of kvs ''messages'' = None"
  proof -
    from that obtain ex kvs where "ex \<in> set (dataset nb)" "ex = JObj kvs"
      "map_of kvs ''messages'' = None" by blast
    then show ?thesis
      by (intro token_counts_Inl [of ex]) (auto simp: count_example_no_messages)
  qed
  moreover have "\<exists>e. token_counts ntok natok pdist nb = Inl e"
    if "\<exists>ex\<in>set (dataset nb). \<exists>kvs pre m post. ex = JObj kvs
          \<and> map_of kvs ''messages'' = Some (JList (pre @ m # post))
          \<and> \<not> has_role_key m
          \<and> (\<not> list_ex (\<lambda>x. py_getitem x ''role'' = Inr (JStr ''system'')) pre
               \<or> \<not> list_ex (\<lambda>x. py_getitem x ''role'' = Inr (JStr ''user'')) pre)"
  proof -
    from that obtain ex kvs pre m post where ex: "ex \<in> set (dataset nb)"
      and bad: "ex = JObj kvs"
        "map_of kvs ''messages'' = Some (JList (pre @ m # post))" "\<not> has_role_key m"
        "\<not> list_ex (\<lambda>x. py_getitem x ''role'' = Inr (JStr ''system'')) pre
           \<or> \<not> list_ex (\<lambda>x. py_getitem x ''role'' = Inr (JStr ''user'')) pre"
      by blast
    have "\<exists>e. count_example ntok natok nb0 ex = Inl e" for nb0 :: "'a notebook"
      using bad by (rule count_example_role_raises)
    with ex show ?thesis
      by (intro token_counts_Inl [of ex]) auto
  qed
  moreover have "token_counts ntok natok pdist (nb\<lparr>dataset := [prompt_record]\<rparr>) = Inl KeyError"
    by (simp add: token_counts_def Let_def bind_def count_example_no_messages prompt_record_def)
  moreover have "token_counts ntok natok pdist (nb\<lparr>dataset := [no_role_exchange]\<rparr>)
        = Inl KeyError"
    by (simp add: token_counts_def Let_def bind_def count_example_first_no_role
        no_role_exchange_def)
  ultimately show ?thesis
    using token_counts_total [of nb ntok natok pdist] by blast
qed

theorem C10_accounting_precondition_witness:
  "(\<exists>nb1. token_counts (per_message_counter 2000) (per_message_counter 7) returning_distribution
          (loaded [example_exchange] ()) = Inr nb1)
   \<and> (\<exists>e. token_counts (per_message_counter 2000) (per_message_counter 7) returning_distribution
          (loaded [example_exchange, prompt_record] ()) = Inl e)
   \<and> (\<exists>e. token_counts (per_message_counter 2000) (per_message_counter 7) returning_distribution
          (loaded [example_exchange, late_no_role_exchange] ()) = Inl e)"
proof -
  have h1: "\<forall>ex\<in>set (dataset (loaded [example_exchange] ())). messages_with_roles ex
        \<and> (\<forall>messages. py_getitem ex ''messages'' = Inr messages \<longrightarrow>
             (\<exists>t. per_message_counter 2000 messages = Inr t)
             \<and> (\<exists>a. per_message_counter 7 messages = Inr a))"
    by (simp add: loaded_def messages_with_roles_def has_role_key_def example_exchange_def
        py_getitem_def per_message_counter_def py_len_def bind_def)
  have hp: "\<forall>values name. returning_distribution values name = Inr ()"
    by (simp add: returning_distribution_def)
  have h2: "\<exists>ex\<in>set (dataset (loaded [example_exchange, prompt_record] ())).
         \<exists>kvs. ex = JObj kvs \<and> map_of kvs ''messages'' = None"
    by (simp add: loaded_def prompt_record_def)
  have "late_no_role_exchange =
      JObj [(''messages'', JList
        ([JObj [(''role'', JStr ''system''), (''content'', JStr ''Sys'')]]
          @ JObj [(''content'', JStr ''Review: good'')] # []))]"
    "map_of [(''messages'', JList
        ([JObj [(''role'', JStr ''system''), (''content'', JStr ''Sys'')]]
          @ JObj [(''content'', JStr ''Review: good'')] # []))] ''messages'' =
      Some (JList
        ([JObj [(''role'', JStr ''system''), (''content'', JStr ''Sys'')]]
          @ JObj [(''content'', JStr ''Review: good'')] # []))"
    "\<not> has_role_key (JObj [(''content'', JStr ''Review: good'')])"
    "\<not> list_ex (\<lambda>x. py_getitem x ''role'' = Inr (JStr ''user''))
          [JObj [(''role'', JStr ''system''), (''content'', JStr ''Sys'')]]"
    by (simp_all add: late_no_role_exchange_def has_role_key_def py_getitem_def)
  then have h3: "\<exists>ex\<in>set (dataset (loaded [example_exchange, late_no_role_exchange] ())).
         \<exists>kvs pre m post. ex = JObj kvs
          \<and> map_of kvs ''messages'' = Some (JList (pre @ m # post))
          \<and> \<not> has_role_key m
          \<and> (\<not> list_ex (\<lambda>x. py_getitem x ''role'' = Inr (JStr ''system'')) pre
               \<or> \<not> list_ex (\<lambda>x. py_getitem x ''role'' = Inr (JStr ''user'')) pre)"
    unfolding loaded_def by (intro bexI [of _ late_no_role_exchange]) (blast, simp)
  from h1 hp C10_accounting_precondition [of "loaded [example_exchange] ()"
      "per_message_counter 2000" "per_message_counter 7" returning_distribution]
  have "\<exists>nb1. token_counts (per_message_counter 2000) (per_message_counter 7)
          returning_distribution (loaded [example_exchange] ()) = Inr nb1"
    by blast
  moreover from h2 C10_accounting_precondition
    [of "loaded [example_exchange, prompt_record] ()"
      "per_message_counter 2000" "per_message_counter 7" returning_distribution]
  have "\<exists>e. token_counts (per_message_counter 2000) (per_message_counter 7)
          returning_distribution (loaded [example_exchange, prompt_record] ()) = Inl e"
    by blast
  moreover from h3 C10_accounting_precondition
    [of "loaded [example_exchange, late_no_role_exchange] ()"
      "per_message_counter 2000" "per_message_counter 7" returning_distribution]
  have "\<exists>e. token_counts (per_message_counter 2000) (per_message_counter 7)
          returning_distribution (loaded [example_exchange, late_no_role_exchange] ()) = Inl e"
    by blast
  ultimately show ?thesis by blast
qed

section \<open>Properties of the example exchanges\<close>

lemma create_full_exchange_Inr:
  assumes "create_full_exchange fmt row = Inr ex"
  obtains review rating sentiment where
    "row ''Review'' = Some review" "row ''Rating'' = Some rating"
    "row ''Sentiment'' = Some sentiment"
  using assms
  by (auto simp: create_full_exchange_def create_user_message_def create_assistant_message_def
      row_getitem_def bind_def Let_def split: option.splits)

lemma create_full_exchange_columns:
  assumes "row ''Review'' = Some review" and "row ''Rating'' = Some rating"
    and "row ''Sentiment'' = Some sentiment"
  shows "create_full_exchange fmt row =
     Inr (JObj [(''messages'', JList
       [JObj [(''role'', JStr ''system''), (''content'', JStr system_message)],
        JObj [(''role'', JStr ''user''), (''content'', JStr (''Review: '' @ fmt review))],
        JObj [(''role'', JStr ''assistant''),
              (''content'', JStr (''{'' @ [DQ] @ ''rating'' @ [DQ] @ '': '' @ fmt rating @ '', ''
                 @ [DQ] @ ''Sentiment'' @ [DQ] @ '': '' @ [DQ] @ fmt sentiment @ [DQ]
                 @ ''}'' @ [LF]))]])])"
  using assms
  by (simp add: create_full_exchange_def create_user_message_def create_assistant_message_def
      row_getitem_def bind_def Let_def)

lemma conversation_invariant_shape:
  "conversation_invariant (JObj [(''messages'', JList
       [JObj [(''role'', JStr ''system''), (''content'', JStr s)],
        JObj [(''role'', JStr ''user''), (''content'', JStr u)],
        JObj [(''role'', JStr ''assistant''), (''content'', JStr a)]])])"
  by (simp add: conversation_invariant_def py_getitem_def)

text \<open>
  C6. An exchange that \<open>create_full_exchange\<close> returns is a mapping with the single key
  \<open>messages\<close>, holding exactly three messages: a system, a user and an assistant message in
  this order, each with exactly the keys \<open>role\<close> and \<open>content\<close>; so it satisfies the advisory
  invariant. A row with the columns \<open>Review\<close>, \<open>Rating\<close> and \<open>Sentiment\<close> gives this
  exchange, with the contents the three templates build.
\<close>

theorem C6_exchange_shape:
  "(create_full_exchange fmt row = Inr ex \<longrightarrow>
      (\<exists>u a. ex = JObj [(''messages'', JList
          [JObj [(''role'', JStr ''system''), (''content'', JStr system_message)],
           JObj [(''role'', JStr ''user''), (''content'', JStr u)],
           JObj [(''role'', JStr ''assistant''), (''content'', JStr a)]])])
      \<and> conversation_invariant ex)
   \<and> (row ''Review'' = Some review \<and> row ''Rating'' = Some rating
        \<and> row ''Sentiment'' = Some sentiment \<longrightarrow>
       create_full_exchange fmt row =
         Inr (JObj [(''messages'', JList
           [JObj [(''role'', JStr ''system''), (''content'', JStr system_message)],
            JObj [(''role'', JStr ''user''), (''content'', JStr (''Review: '' @ fmt review))],
            JObj [(''role'', JStr ''assistant''),
                  (''content'', JStr (''{'' @ [DQ] @ ''rating'' @ [DQ] @ '': '' @ fmt rating
                     @ '', '' @ [DQ] @ ''Sentiment'' @ [DQ] @ '': '' @ [DQ] @ fmt sentiment
                     @ [DQ] @ ''}'' @ [LF]))]])]))"
proof -
  have "(\<exists>u a. ex = JObj [(''messages'', JList
          [JObj [(''role'', JStr ''system''), (''content'', JStr system_message)],
           JObj [(''role'', JStr ''user''), (''content'', JStr u)],
           JObj [(''role'', JStr ''assistant''), (''content'', JStr a)]])])
      \<and> conversation_invariant ex"
    if built: "create_full_exchange fmt row = Inr ex"
  proof -
    from built obtain rv rt se where "row ''Review'' = Some rv" "row ''Rating'' = Some rt"
      "row ''Sentiment'' = Some se"
      by (rule create_full_exchange_Inr)
    from create_full_exchange_columns [OF this, of fmt] built
    show ?thesis
      using conversation_invariant_shape by auto
  qed
  then show ?thesis
    using create_full_exchange_columns [of row review rating sentiment fmt] by blast
qed

theorem C6_exchange_shape_witness:
  "create_full_exchange (\<lambda>c. c)
      [''Review'' \<mapsto> ''The food was wonderful!'', ''Rating'' \<mapsto> ''5'',
       ''Sentiment'' \<mapsto> ''Delightful'']
    = Inr (JObj [(''messages'', JList
           [JObj [(''role'', JStr ''system''), (''content'', JStr system_message)],
            JObj [(''role'', JStr ''user''),
                  (''content'', JStr ''Review: The food was wonderful!'')],
            JObj [(''role'', JStr ''assistant''),
                  (''content'', JStr (''{'' @ [DQ] @ ''rating'' @ [DQ] @ '': 5, '' @ [DQ]
                     @ ''Sentiment'' @ [DQ] @ '': '' @ [DQ] @ ''Delightful'' @ [DQ] @ ''}''
                     @ [LF]))]])])
   \<and> conversation_invariant (JObj [(''messages'', JList
           [JObj [(''role'', JStr ''system''), (''content'', JStr system_message)],
            JObj [(''role'', JStr ''user''),
                  (''content'', JStr ''Review: The food was wonderful!'')],
            JObj [(''role'', JStr ''assistant''),
                  (''content'', JStr (''{'' @ [DQ] @ ''rating'' @ [DQ] @ '': 5, '' @ [DQ]
                     @ ''Sentiment'' @ [DQ] @ '': '' @ [DQ] @ ''Delightful'' @ [DQ] @ ''}''
                     @ [LF]))]])])"
proof -
  note C6_exchange_shape [of "\<lambda>c. c"
      "[''Review'' \<mapsto> ''The food was wonderful!'', ''Rating'' \<mapsto> ''5'',
        ''Sentiment'' \<mapsto> ''Delightful'']" _ "''The food was wonderful!''" "''5''" "''Delightful''"]
  then show ?thesis by simp
qed

section \<open>Properties of the token counter of the specification\<close>

lemma num_tokens_loop_sum:
  "num_tokens_loop st acc messages =
     acc + (\<Sum>m\<leftarrow>messages. per_message_overhead st + count_text st (msg_role m)
                              + count_text st (msg_content m))"
  by (induction messages arbitrary: acc) simp_all

lemma num_assistant_tokens_loop_sum:
  "num_assistant_tokens_loop st acc messages =
     acc + (\<Sum>m\<leftarrow>filter (\<lambda>m. msg_role m = ''assistant'') messages.
              per_message_overhead st + count_text st (msg_content m))"
  by (induction messages arbitrary: acc) simp_all

text \<open>
  C9. The total token count of a conversation is the sum over its messages of the
  per-message overhead, the token count of the role and the token count of the content,
  plus the trailing overhead once; the assistant-only count is the sum of the per-message
  overhead and the token count of the content over the messages with role \<open>assistant\<close>.
  On the worked example of the specification the two counts are 28 and 7.
\<close>

theorem C9_token_counts:
  "num_tokens_from_messages st messages =
     (\<Sum>m\<leftarrow>messages. per_message_overhead st + count_text st (msg_role m)
                        + count_text st (msg_content m))
     + trailing_overhead st
   \<and> num_assistant_tokens_from_messages st messages =
     (\<Sum>m\<leftarrow>filter (\<lambda>m. msg_role m = ''assistant'') messages.
        per_message_overhead st + count_text st (msg_content m))
   \<and> num_tokens_from_messages toy_strategy
        [\<lparr>msg_role = ''system'', msg_content = ''Sys''\<rparr>,
         \<lparr>msg_role = ''user'', msg_content = ''Review: good''\<rparr>,
         \<lparr>msg_role = ''assistant'',
           msg_content = ''{'' @ [DQ] @ ''rating'' @ [DQ] @ '':5}''\<rparr>] = 28
   \<and> num_assistant_tokens_from_messages toy_strategy
        [\<lparr>msg_role = ''system'', msg_content = ''Sys''\<rparr>,
         \<lparr>msg_role = ''user'', msg_content = ''Review: good''\<rparr>,
         \<lparr>msg_role = ''assistant'',
           msg_content = ''{'' @ [DQ] @ ''rating'' @ [DQ] @ '':5}''\<rparr>] = 7"
  by (simp add: num_tokens_from_messages_def num_assistant_tokens_from_messages_def
      num_tokens_loop_sum num_assistant_tokens_loop_sum toy_strategy_def)

section \<open>Properties of the format validator of the specification\<close>

lemma check_format_errors_from_enumerate:
  "check_format_errors_from alts i issues ds =
     issues @ concat (map (\<lambda>(j, ex). check_conversation alts j ex) (enumerate i ds))"
  by (induction ds arbitrary: i issues) simp_all

lemma check_messages_index:
  "x \<in> set (check_messages alts i j ms) \<Longrightarrow> conversation_index x = i"
  by (induction ms arbitrary: j)
    (auto simp: check_message_def check_role_def check_content_def Let_def
      split: json.splits option.splits if_splits)

lemma check_conversation_index:
  "x \<in> set (check_conversation alts i ex) \<Longrightarrow> conversation_index x = i"
  by (auto simp: check_conversation_def Let_def dest: check_messages_index
      split: option.splits if_splits)

lemma enumerate_issues_lower:
  "x \<in> set (concat (map (\<lambda>(j, ex). check_conversation alts j ex) (enumerate i ds)))
     \<Longrightarrow> i \<le> conversation_index x"
proof (induction ds arbitrary: i)
  case Nil
  then show ?case by simp
next
  case (Cons ex ds)
  from Cons.prems consider "x \<in> set (check_conversation alts i ex)"
    | "x \<in> set (concat (map (\<lambda>(j, ex). check_conversation alts j ex) (enumerate (Suc i) ds)))"
    by auto
  then show ?case
  proof cases
    case 1
    then show ?thesis by (simp add: check_conversation_index)
  next
    case 2
    from Cons.IH [OF this] show ?thesis by simp
  qed
qed

lemma sorted_constant_key:
  assumes "\<And>x. x \<in> set xs \<Longrightarrow> f x = (c::nat)"
  shows "sorted (map f xs)"
  using assms by (induction xs) auto

lemma enumerate_issues_sorted:
  "sorted (map conversation_index
     (concat (map (\<lambda>(j, ex). check_conversation alts j ex) (enumerate i ds))))"
proof (induction ds arbitrary: i)
  case Nil
  then show ?case by simp
next
  case (Cons ex ds)
  let ?here = "check_conversation alts i ex"
  let ?later = "concat (map (\<lambda>(j, ex). check_conversation alts j ex) (enumerate (Suc i) ds))"
  have here: "sorted (map conversation_index ?here)"
    by (rule sorted_constant_key [where c = i]) (simp add: check_conversation_index)
  have "conversation_index x \<le> conversation_index y"
    if "x \<in> set ?here" and "y \<in> set ?later" for x y
    using check_conversation_index [OF that(1)] enumerate_issues_lower [OF that(2)] by simp
  then have "\<forall>a\<in>set (map conversation_index ?here).
      \<forall>b\<in>set (map conversation_index ?later). a \<le> b"
    unfolding set_map by blast
  then have "sorted (map conversation_index (?here @ ?later))"
    unfolding map_append sorted_append using here Cons.IH [of "Suc i"] by blast
  then show ?case by simp
qed

lemma check_format_errors_example:
  "check_format_errors alts [example_exchange] = []"
  by (simp add: check_format_errors_def check_conversation_def check_message_def
      check_role_def check_content_def is_assistant_def recognized_roles_def Let_def
      example_exchange_def)

text \<open>
  C8. The validator returns, for every dataset, the list of the issues of every conversation
  in the order of the dataset: the issues of conversation 0, then those of conversation 1,
  and so on, each conversation checked under its own index. A malformed record \<open>bad\<close> adds its
  own issues, and the records after it are inspected as before.
\<close>

theorem C8_validator_exhaustive:
  "check_format_errors alts ds =
     concat (map (\<lambda>(i, ex). check_conversation alts i ex) (enumerate 0 ds))
   \<and> check_format_errors alts (xs @ bad # ys) =
       check_format_errors alts xs @ check_conversation alts (length xs) bad
         @ check_format_errors_from alts (Suc (length xs)) [] ys
   \<and> sorted (map conversation_index (check_format_errors alts ds))
   \<and> check_format_errors alts [JInt 5, no_role_exchange] =
       [\<lparr>conversation_index = 0, message_index = None, field_name = Some ''messages'',
          reason = MissingMessagesList\<rparr>,
        \<lparr>conversation_index = 0, message_index = None, field_name = None,
          reason = MissingAssistantMessage\<rparr>,
        \<lparr>conversation_index = 1, message_index = Some 0, field_name = Some ''role'',
          reason = MissingRole\<rparr>,
        \<lparr>conversation_index = 1, message_index = None, field_name = None,
          reason = MissingAssistantMessage\<rparr>]"
proof -
  have "check_format_errors alts (xs @ bad # ys) =
       check_format_errors alts xs @ check_conversation alts (length xs) bad
         @ check_format_errors_from alts (Suc (length xs)) [] ys"
    by (simp add: check_format_errors_def check_format_errors_from_enumerate enumerate_append_eq)
  moreover have "check_format_errors alts [JInt 5, no_role_exchange] =
       [\<lparr>conversation_index = 0, message_index = None, field_name = Some ''messages'',
          reason = MissingMessagesList\<rparr>,
        \<lparr>conversation_index = 0, message_index = None, field_name = None,
          reason = MissingAssistantMessage\<rparr>,
        \<lparr>conversation_index = 1, message_index = Some 0, field_name = Some ''role'',
          reason = MissingRole\<rparr>,
        \<lparr>conversation_index = 1, message_index = None, field_name = None,
          reason = MissingAssistantMessage\<rparr>]"
    by (simp add: check_format_errors_def check_conversation_def check_message_def
        check_role_def check_content_def is_assistant_def Let_def no_role_exchange_def)
  ultimately show ?thesis
    by (simp add: check_format_errors_def check_format_errors_from_enumerate
        enumerate_issues_sorted)
qed

section \<open>Properties of the line-delimited files\<close>

lemma LF_neq_CR: "LF \<noteq> CR"
  by (simp add: LF_def CR_def)

lemma text_write_line:
  assumes "LF \<notin> set s"
  shows "text_write linesep (s @ [LF]) = s @ linesep"
proof -
  have "concat (map (\<lambda>c. if c = LF then linesep else [c]) s) = s"
    using assms by (induction s) auto
  then show ?thesis by (simp add: text_write_def)
qed

lemma foldl_append_concat:
  "foldl (\<lambda>out x. out @ f x) acc xs = acc @ concat (map f xs)"
  by (induction xs arbitrary: acc) simp_all

lemma write_jsonl_concat:
  "write_jsonl linesep dumps ds = concat (map (\<lambda>d. text_write linesep (dumps d @ [LF])) ds)"
  by (simp add: write_jsonl_def Let_def foldl_append_concat)

lemma file_lines_line:
  assumes "LF \<notin> set s" and "CR \<notin> set s" and "linesep = [LF] \<or> linesep = [CR, LF]"
  shows "file_lines cur (s @ linesep @ rest) = (cur @ s @ [LF]) # file_lines [] rest"
  using assms(1,2)
proof (induction s arbitrary: cur)
  case Nil
  from assms(3) show ?case
  proof
    assume "linesep = [LF]"
    then show ?thesis by (cases rest) (simp_all add: LF_neq_CR)
  next
    assume "linesep = [CR, LF]"
    then show ?thesis by simp
  qed
next
  case (Cons c s)
  from assms(3) obtain d ds where "s @ linesep @ rest = d # ds"
    by (cases "s @ linesep @ rest") auto
  moreover from Cons.prems have "c \<noteq> LF" "c \<noteq> CR" "LF \<notin> set s" "CR \<notin> set s"
    by auto
  ultimately show ?case using Cons.IH [of "cur @ [c]"] by simp
qed

lemma file_lines_written:
  assumes "\<forall>d\<in>set ds. LF \<notin> set (dumps d) \<and> CR \<notin> set (dumps d)"
    and "linesep = [LF] \<or> linesep = [CR, LF]"
  shows "file_lines [] (write_jsonl linesep dumps ds) = map (\<lambda>d. dumps d @ [LF]) ds"
proof -
  have "file_lines [] (concat (map (\<lambda>d. text_write linesep (dumps d @ [LF])) ds))
      = map (\<lambda>d. dumps d @ [LF]) ds"
    using assms(1)
  proof (induction ds)
    case Nil
    then show ?case by simp
  next
    case (Cons d ds)
    then have d: "LF \<notin> set (dumps d)" "CR \<notin> set (dumps d)" by simp_all
    have "file_lines [] (dumps d @ linesep
            @ concat (map (\<lambda>d. text_write linesep (dumps d @ [LF])) ds))
        = (dumps d @ [LF]) # file_lines [] (concat (map (\<lambda>d. text_write linesep (dumps d @ [LF])) ds))"
      using file_lines_line [OF d assms(2), of "[]"] by simp
    with Cons show ?case by (simp add: text_write_line d)
  qed
  then show ?thesis by (simp add: write_jsonl_concat)
qed

lemma loads_lines_dumped:
  assumes "\<forall>d\<in>set ds. loads (dumps d @ [LF]) = Inr d"
  shows "loads_lines loads (map (\<lambda>d. dumps d @ [LF]) ds) = Inr ds"
  using assms by (induction ds) (simp_all add: bind_def)

lemma jsonl_round_trip:
  assumes "linesep = [LF] \<or> linesep = [CR, LF]"
    and "\<forall>d\<in>set data_list. LF \<notin> set (dumps d) \<and> CR \<notin> set (dumps d)
           \<and> loads (dumps d @ [LF]) = Inr d"
  shows "load_dataset loads (write_jsonl linesep dumps data_list) = Inr data_list"
  using assms by (simp add: load_dataset_def file_lines_written loads_lines_dumped)

subsection \<open>The reference serializer and parser\<close>

lemma char_distinct:
  "DQ \<noteq> BS" "DQ \<noteq> LF" "DQ \<noteq> CR" "DQ \<noteq> TAB" "BS \<noteq> LF" "BS \<noteq> CR" "BS \<noteq> TAB"
  "LF \<noteq> CR" "LF \<noteq> TAB" "CR \<noteq> TAB"
  "BS \<noteq> DQ" "LF \<noteq> DQ" "CR \<noteq> DQ" "TAB \<noteq> DQ" "LF \<noteq> BS" "CR \<noteq> BS" "TAB \<noteq> BS"
  "CR \<noteq> LF" "TAB \<noteq> LF" "TAB \<noteq> CR"
  by (simp_all add: DQ_def BS_def LF_def CR_def TAB_def)

lemma escape_no_line_break: "LF \<notin> set (escape s)" "CR \<notin> set (escape s)"
  by (induction s) (simp_all add: char_distinct, simp_all add: LF_def CR_def BS_def)

lemma parse_string_body_escape:
  "parse_string_body (escape s @ DQ # rest) = Some (s, rest)"
proof (induction s)
  case Nil
  show ?case by (cases rest) simp_all
next
  case (Cons c s)
  obtain e cs where tail: "escape s @ DQ # rest = e # cs"
    by (cases "escape s @ DQ # rest") simp_all
  with Cons have IH: "parse_string_body (e # cs) = Some (s, rest)" by simp
  show ?case
    using tail IH
    by (simp add: unescape_def char_distinct, simp add: DQ_def BS_def LF_def CR_def TAB_def)
qed


lemma skip_ws_Cons:
  "c \<noteq> CHR '' '' \<Longrightarrow> c \<noteq> LF \<Longrightarrow> c \<noteq> CR \<Longrightarrow> c \<noteq> TAB \<Longrightarrow> skip_ws (c # cs) = c # cs"
  by (simp add: skip_ws_def)

lemma skip_ws_space: "skip_ws (CHR '' '' # cs) = skip_ws cs"
  by (simp add: skip_ws_def)

lemma skip_ws_LF: "skip_ws [LF] = []"
  by (simp add: skip_ws_def)

lemma value_start_skip_ws: "value_start c \<Longrightarrow> skip_ws (c # cs) = c # cs"
  by (rule skip_ws_Cons) (auto simp: value_start_def DQ_def LF_def CR_def TAB_def)

lemma value_start_not_closing: "value_start c \<Longrightarrow> c \<noteq> CHR '']'' \<and> c \<noteq> CHR ''}''"
  by (auto simp: value_start_def DQ_def)

lemma json_dumps_start_ex:
  "textual v \<Longrightarrow> \<exists>c cs. json_dumps v = c # cs \<and> value_start c"
  by (cases v) (simp_all add: value_start_def quote_def)

lemma json_dumps_start:
  assumes "textual v"
  obtains c cs where "json_dumps v = c # cs" "value_start c"
  using json_dumps_start_ex [OF assms] by blast

lemma dumps_items_start:
  assumes "textual_items (x # xs)"
  obtains c cs where "dumps_items (x # xs) = c # cs" "value_start c"
proof -
  from assms have "textual x" by simp
  then obtain c cs where "json_dumps x = c # cs" "value_start c" by (rule json_dumps_start)
  then show thesis using that by (cases xs) simp_all
qed

lemma dumps_members_start:
  obtains cs where "dumps_members (kv # kvs) = DQ # cs"
  by (cases kv; cases kvs) (simp_all add: quote_def)


lemma skip_ws_punct:
  "skip_ws (CHR '','' # cs) = CHR '','' # cs" "skip_ws (CHR '':'' # cs) = CHR '':'' # cs"
  "skip_ws (CHR '']'' # cs) = CHR '']'' # cs" "skip_ws (CHR ''}'' # cs) = CHR ''}'' # cs"
  by (simp_all add: skip_ws_def LF_def CR_def TAB_def)

lemma skip_ws_dumps:
  assumes "textual v"
  shows "skip_ws (json_dumps v @ r) = json_dumps v @ r"
proof -
  from assms obtain c cs where "json_dumps v = c # cs" "value_start c" by (rule json_dumps_start)
  then show ?thesis by (simp add: value_start_skip_ws)
qed

lemma skip_ws_items:
  assumes "textual_items (x # xs)"
  shows "skip_ws (dumps_items (x # xs) @ r) = dumps_items (x # xs) @ r"
proof -
  from assms obtain c cs where "dumps_items (x # xs) = c # cs" "value_start c"
    by (rule dumps_items_start)
  then show ?thesis by (simp add: value_start_skip_ws)
qed

lemma skip_ws_members:
  "skip_ws (dumps_members (kv # kvs) @ r) = dumps_members (kv # kvs) @ r"
proof -
  obtain cs where "dumps_members (kv # kvs) = DQ # cs" by (rule dumps_members_start)
  then show ?thesis by (simp add: skip_ws_Cons DQ_def LF_def CR_def TAB_def)
qed

lemma parse_value_string:
  assumes "skip_ws s = quote t @ rest"
  shows "parse_value (Suc fuel) s = Some (JStr t, rest)"
  using assms by (simp add: quote_def parse_string_body_escape)

lemma parse_value_null:
  assumes "skip_ws s = ''null'' @ rest"
  shows "parse_value (Suc fuel) s = Some (JNull, rest)"
  using assms by (simp add: DQ_def)

lemma parse_value_bool:
  assumes "skip_ws s = (if b then ''true'' else ''false'') @ rest"
  shows "parse_value (Suc fuel) s = Some (JBool b, rest)"
  using assms by (cases b) (simp_all add: DQ_def)

lemma parse_value_list:
  assumes "skip_ws s = ''['' @ dumps_items xs @ '']'' @ rest" and "textual_items xs"
    and "xs \<noteq> [] \<Longrightarrow> parse_items fuel (dumps_items xs @ '']'' @ rest) = Some (xs, rest)"
  shows "parse_value (Suc fuel) s = Some (JList xs, rest)"
proof (cases xs)
  case Nil
  with assms(1) show ?thesis by (simp add: DQ_def skip_ws_punct)
next
  case (Cons x xs')
  from assms(2) Cons have "textual_items (x # xs')" by simp
  then obtain c cs where "dumps_items (x # xs') = c # cs" "value_start c"
    by (rule dumps_items_start)
  with Cons have start: "dumps_items xs = c # cs" "value_start c" by simp_all
  with assms(1,3) Cons show ?thesis
    using value_start_not_closing [OF start(2)]
    by (simp add: DQ_def value_start_skip_ws)
qed

lemma parse_value_object:
  assumes "skip_ws s = ''{'' @ dumps_members kvs @ ''}'' @ rest"
    and "kvs \<noteq> [] \<Longrightarrow> parse_members fuel (dumps_members kvs @ ''}'' @ rest) = Some (kvs, rest)"
  shows "parse_value (Suc fuel) s = Some (JObj kvs, rest)"
proof (cases kvs)
  case Nil
  with assms(1) show ?thesis by (simp add: DQ_def skip_ws_punct)
next
  case (Cons kv kvs')
  obtain cs where start: "dumps_members (kv # kvs') = DQ # cs" by (rule dumps_members_start)
  with assms Cons show ?thesis
    by (simp add: DQ_def skip_ws_Cons LF_def CR_def TAB_def)
qed


lemma parse_items_last:
  assumes "parse_value fuel s = Some (x, '']'' @ rest)"
  shows "parse_items (Suc fuel) s = Some ([x], rest)"
  using assms by (simp add: skip_ws_punct)

lemma parse_items_more:
  assumes "parse_value fuel s = Some (x, '', '' @ t)"
    and "parse_items fuel (CHR '' '' # t) = Some (xs, rest)"
  shows "parse_items (Suc fuel) s = Some (x # xs, rest)"
  using assms by (simp add: skip_ws_punct)

lemma parse_members_last:
  assumes "skip_ws s = quote k @ '': '' @ t"
    and "parse_value fuel (CHR '' '' # t) = Some (v, ''}'' @ rest)"
  shows "parse_members (Suc fuel) s = Some ([(k, v)], rest)"
  using assms by (simp add: quote_def parse_string_body_escape skip_ws_punct)

lemma parse_members_more:
  assumes "skip_ws s = quote k @ '': '' @ t"
    and "parse_value fuel (CHR '' '' # t) = Some (v, '', '' @ u)"
    and "parse_members fuel (CHR '' '' # u) = Some (kvs, rest)"
  shows "parse_members (Suc fuel) s = Some ((k, v) # kvs, rest)"
  using assms by (simp add: quote_def parse_string_body_escape skip_ws_punct)

lemma parse_dumps:
  "textual v \<Longrightarrow> length (json_dumps v) \<le> fuel \<Longrightarrow> skip_ws s = json_dumps v @ rest
     \<Longrightarrow> parse_value fuel s = Some (v, rest)"
  "textual_items xs \<Longrightarrow> xs \<noteq> [] \<Longrightarrow> length (dumps_items xs) < fuel
     \<Longrightarrow> skip_ws s = dumps_items xs @ '']'' @ rest
     \<Longrightarrow> parse_items fuel s = Some (xs, rest)"
  "textual_members kvs \<Longrightarrow> kvs \<noteq> [] \<Longrightarrow> length (dumps_members kvs) < fuel
     \<Longrightarrow> skip_ws s = dumps_members kvs @ ''}'' @ rest
     \<Longrightarrow> parse_members fuel s = Some (kvs, rest)"
proof (induction v and xs and kvs arbitrary: fuel s rest and fuel s rest and fuel s rest
    rule: json_dumps_dumps_items_dumps_members.induct)
  case 1
  then obtain f where "fuel = Suc f" by (cases fuel) simp_all
  with 1 show ?case by (simp only: parse_value_null json_dumps.simps)
next
  case (2 b)
  then obtain f where "fuel = Suc f" by (cases fuel) (simp_all split: if_splits)
  with 2 show ?case by (simp only: parse_value_bool json_dumps.simps)
next
  case (3 i)
  then show ?case by simp
next
  case (4 literal)
  then show ?case by simp
next
  case (5 t)
  then obtain f where "fuel = Suc f" by (cases fuel) (simp_all add: quote_def)
  with 5 show ?case by (simp only: parse_value_string json_dumps.simps)
next
  case (6 xs)
  from "6.prems" obtain f where fuel: "fuel = Suc f" and f: "length (dumps_items xs) < f"
    by (cases fuel) simp_all
  have "parse_items f (dumps_items xs @ '']'' @ rest) = Some (xs, rest)" if "xs \<noteq> []"
  proof -
    from that obtain x xs' where xs: "xs = x # xs'" by (cases xs) simp_all
    with "6.prems"(1) have "skip_ws (dumps_items xs @ '']'' @ rest) = dumps_items xs @ '']'' @ rest"
      using skip_ws_items [of x xs'] by simp
    with "6.IH" [OF _ that f] "6.prems"(1) show ?thesis by simp
  qed
  with "6.prems" fuel show ?case
    using parse_value_list [of s xs rest f] by simp
next
  case (7 kvs)
  from "7.prems" obtain f where fuel: "fuel = Suc f" and f: "length (dumps_members kvs) < f"
    by (cases fuel) simp_all
  have "parse_members f (dumps_members kvs @ ''}'' @ rest) = Some (kvs, rest)" if "kvs \<noteq> []"
  proof -
    from that obtain kv kvs' where kvs: "kvs = kv # kvs'" by (cases kvs) simp_all
    then have "skip_ws (dumps_members kvs @ ''}'' @ rest) = dumps_members kvs @ ''}'' @ rest"
      using skip_ws_members [of kv kvs'] by simp
    with "7.IH" [OF _ that f] "7.prems"(1) show ?thesis by simp
  qed
  with "7.prems" fuel show ?case
    using parse_value_object [of s kvs rest f] by simp
next
  case 8
  then show ?case by simp
next
  case (9 x)
  from "9.prems" obtain f where fuel: "fuel = Suc f" and f: "length (json_dumps x) \<le> f"
    by (cases fuel) simp_all
  from "9.prems" have "parse_value f s = Some (x, '']'' @ rest)"
    by (intro "9.IH" f) simp_all
  then show ?case unfolding fuel by (rule parse_items_last)
next
  case (10 x y ys)
  from "10.prems" obtain f where fuel: "fuel = Suc f"
    and fx: "length (json_dumps x) \<le> f" and fys: "length (dumps_items (y # ys)) < f"
    by (cases fuel) simp_all
  let ?t = "dumps_items (y # ys) @ '']'' @ rest"
  from "10.prems" have "parse_value f s = Some (x, '', '' @ ?t)"
    by (intro "10.IH"(1) fx) simp_all
  moreover have "parse_items f (CHR '' '' # ?t) = Some (y # ys, rest)"
  proof (rule "10.IH"(2) [OF _ _ fys])
    from "10.prems" show "textual_items (y # ys)" by simp
    then show "skip_ws (CHR '' '' # ?t) = ?t"
      using skip_ws_items [of y ys "'']'' @ rest"] by (simp add: skip_ws_space)
  qed simp
  ultimately show ?case unfolding fuel by (rule parse_items_more)
next
  case 11
  then show ?case by simp
next
  case (12 k v)
  from "12.prems" obtain f where fuel: "fuel = Suc f" and fv: "length (json_dumps v) \<le> f"
    by (cases fuel) simp_all
  let ?t = "json_dumps v @ ''}'' @ rest"
  from "12.prems" have v: "textual v" by simp
  have "skip_ws s = quote k @ '': '' @ ?t"
    using "12.prems" by simp
  moreover have "parse_value f (CHR '' '' # ?t) = Some (v, ''}'' @ rest)"
    using skip_ws_dumps [OF v, of "''}'' @ rest"]
    by (intro "12.IH" v fv) (simp add: skip_ws_space)
  ultimately show ?case unfolding fuel by (rule parse_members_last)
next
  case (13 k v kv kvs)
  from "13.prems" obtain f where fuel: "fuel = Suc f"
    and fv: "length (json_dumps v) \<le> f" and fkvs: "length (dumps_members (kv # kvs)) < f"
    by (cases fuel) simp_all
  let ?u = "dumps_members (kv # kvs) @ ''}'' @ rest"
  let ?t = "json_dumps v @ '', '' @ ?u"
  from "13.prems" have v: "textual v" and kvs: "textual_members (kv # kvs)" by simp_all
  have "skip_ws s = quote k @ '': '' @ ?t"
    using "13.prems" by simp
  moreover have "parse_value f (CHR '' '' # ?t) = Some (v, '', '' @ ?u)"
    using skip_ws_dumps [OF v, of "'', '' @ ?u"]
    by (intro "13.IH"(1) v fv) (simp add: skip_ws_space)
  moreover have "parse_members f (CHR '' '' # ?u) = Some (kv # kvs, rest)"
    using skip_ws_members [of kv kvs "''}'' @ rest"]
    by (intro "13.IH"(2) kvs fkvs) (simp_all add: skip_ws_space)
  ultimately show ?case unfolding fuel by (rule parse_members_more)
qed


lemma json_loads_dumps:
  assumes "textual v"
  shows "json_loads (json_dumps v @ [LF]) = Inr v"
proof -
  have "parse_value (length (json_dumps v @ [LF])) (json_dumps v @ [LF]) = Some (v, [LF])"
    using assms skip_ws_dumps [OF assms, of "[LF]"] by (intro parse_dumps(1)) simp_all
  then show ?thesis by (simp add: json_loads_def skip_ws_LF)
qed

lemma dumps_no_line_break:
  "textual v \<Longrightarrow> LF \<notin> set (json_dumps v) \<and> CR \<notin> set (json_dumps v)"
  "textual_items xs \<Longrightarrow> LF \<notin> set (dumps_items xs) \<and> CR \<notin> set (dumps_items xs)"
  "textual_members kvs \<Longrightarrow> LF \<notin> set (dumps_members kvs) \<and> CR \<notin> set (dumps_members kvs)"
proof (induction v and xs and kvs rule: json_dumps_dumps_items_dumps_members.induct)
  case (5 t)
  show ?case by (simp add: quote_def escape_no_line_break char_distinct)
next
  case (12 k v)
  then show ?case
    by (simp add: quote_def escape_no_line_break char_distinct, simp add: LF_def CR_def)
next
  case (13 k v kv kvs)
  then show ?case
    by (simp add: quote_def escape_no_line_break char_distinct, simp add: LF_def CR_def)
qed (simp_all, simp_all add: LF_def CR_def)

lemma create_full_exchange_textual:
  assumes "create_full_exchange fmt row = Inr ex"
  shows "textual ex"
proof -
  from assms obtain rv rt se where "row ''Review'' = Some rv" "row ''Rating'' = Some rt"
    "row ''Sentiment'' = Some se"
    by (rule create_full_exchange_Inr)
  from create_full_exchange_columns [OF this, of fmt] assms show ?thesis by auto
qed

lemma reference_round_trip:
  assumes "linesep = [LF] \<or> linesep = [CR, LF]" and "\<forall>d\<in>set records. textual d"
  shows "load_dataset json_loads (write_jsonl linesep json_dumps records) = Inr records"
  using assms
  by (simp add: load_dataset_def file_lines_written loads_lines_dumped json_loads_dumps
      dumps_no_line_break)

text \<open>
  The exchanges of \<open>create_full_exchange\<close>, the training and the validation data of the
  notebook, are such records.
\<close>

lemma exchanges_round_trip:
  assumes "linesep = [LF] \<or> linesep = [CR, LF]"
    and "\<forall>d\<in>set training_data. \<exists>row. create_full_exchange fmt row = Inr d"
  shows "load_dataset json_loads (write_jsonl linesep json_dumps training_data)
           = Inr training_data"
  using assms by (intro reference_round_trip) (auto dest: create_full_exchange_textual)

text \<open>
  C5. Writing a list of records with \<open>write_jsonl\<close> and reading the file back line by line
  gives the same list, record for record and in the same order, for either line separator
  of the platform: for every serializer that puts no line break inside a record and every
  parser that inverts it on a record followed by a newline, as \<^verbatim>\<open>json.dumps\<close> and
  \<^verbatim>\<open>json.loads\<close> do on conversation records; and in particular for the reference
  serializer and parser, on every list of records whose fields are text.
\<close>

theorem C5_jsonl_round_trip:
  "((linesep = [LF] \<or> linesep = [CR, LF])
      \<and> (\<forall>d\<in>set data_list. LF \<notin> set (dumps d) \<and> CR \<notin> set (dumps d)
            \<and> loads (dumps d @ [LF]) = Inr d)
      \<longrightarrow> load_dataset loads (write_jsonl linesep dumps data_list) = Inr data_list)
   \<and> ((linesep = [LF] \<or> linesep = [CR, LF]) \<and> (\<forall>d\<in>set records. textual d)
      \<longrightarrow> load_dataset json_loads (write_jsonl linesep json_dumps records) = Inr records)"
  using jsonl_round_trip [of linesep data_list dumps loads]
    reference_round_trip [of linesep records]
  by blast

theorem C5_jsonl_round_trip_witness:
  "load_dataset json_loads
     (write_jsonl [LF] json_dumps [example_exchange, example_row_exchange])
     = Inr [example_exchange, example_row_exchange]
   \<and> load_dataset json_loads
     (write_jsonl [CR, LF] json_dumps [example_exchange, example_row_exchange])
     = Inr [example_exchange, example_row_exchange]"
proof -
  have records: "\<forall>d\<in>set [example_exchange, example_row_exchange].
      LF \<notin> set (json_dumps d) \<and> CR \<notin> set (json_dumps d)
      \<and> json_loads (json_dumps d @ [LF]) = Inr d"
    by code_simp
  have all_textual: "\<forall>d\<in>set [example_exchange, example_row_exchange]. textual d"
    by (simp add: example_exchange_def example_row_exchange_def)
  from C5_jsonl_round_trip [of "[LF]" "[example_exchange, example_row_exchange]"
      json_dumps json_loads "[example_exchange, example_row_exchange]"] records
  have "load_dataset json_loads
     (write_jsonl [LF] json_dumps [example_exchange, example_row_exchange])
     = Inr [example_exchange, example_row_exchange]"
    by simp
  moreover
  from C5_jsonl_round_trip [of "[CR, LF]" "[]" json_dumps json_loads
      "[example_exchange, example_row_exchange]"] all_textual
  have "load_dataset json_loads
     (write_jsonl [CR, LF] json_dumps [example_exchange, example_row_exchange])
     = Inr [example_exchange, example_row_exchange]"
    by simp
  ultimately show ?thesis by simp
qed

end
